theory Spec2Isabelle
  imports Complex_Main "HOL-Library.AList"
begin

section \<open>Values and dictionaries\<close>

text \<open>
  The loaders work on what \<^verbatim>\<open>json.loads\<close> returns for one line of a JSONL file, with
  one addition: the timestamp fields are replaced by \<^verbatim>\<open>datetime\<close> objects before the
  type check. A \<^verbatim>\<open>datetime\<close> is modelled by its position on the time line in
  microseconds (the resolution of the Python type); a Python \<^verbatim>\<open>float\<close> is modelled by the
  real number it denotes, so rounding, infinities and NaN are outside the model. A Python
  \<^verbatim>\<open>dict\<close> is an association list in insertion order; the dictionaries of the program
  have pairwise distinct keys.
\<close>

datatype json =
    JNull
  | JBool bool
  | JInt int
  | JFloat real
  | JStr string
  | JList "json list"
  | JDict "(string \<times> json) list"
  | JDatetime int

type_synonym pydict = "(string \<times> json) list"

text \<open>\<^verbatim>\<open>k in d\<close>, \<^verbatim>\<open>d[k]\<close> (as an option: \<open>None\<close> is the \<^verbatim>\<open>KeyError\<close>),
  \<^verbatim>\<open>d[k] = v\<close> (in place when the key exists, appended otherwise) and \<^verbatim>\<open>del d[k]\<close>.\<close>

definition dict_in :: "string \<Rightarrow> (string \<times> 'v) list \<Rightarrow> bool" where
  "dict_in k d = (map_of d k \<noteq> None)"

definition dict_get :: "(string \<times> 'v) list \<Rightarrow> string \<Rightarrow> 'v option" where
  "dict_get d k = map_of d k"

definition dict_set :: "(string \<times> 'v) list \<Rightarrow> string \<Rightarrow> 'v \<Rightarrow> (string \<times> 'v) list" where
  "dict_set d k v = AList.update k v d"

definition dict_del :: "(string \<times> 'v) list \<Rightarrow> string \<Rightarrow> (string \<times> 'v) list" where
  "dict_del d k = AList.delete k d"

section \<open>Errors\<close>

text \<open>
  Every \<^verbatim>\<open>raise\<close> of the two modules is one constructor, carrying the data its
  message is built from (the file name of a per-file error and the line number of a missing
  attribute are left out). The last group are
  the exceptions Python itself raises on a path the program does not guard.
\<close>

datatype error =
    AttributeNotFound string
  | NotIsoTimestamp string
  | NotOneOf string nat
  | NotType string nat
  | TimestampBefore nat nat
  | TransitionNotValid nat nat
  | FirstStateNotInitialized string nat
  | LastStateNotConclusion string nat
  | CouldNotIdentify error error
  | ConflictingStateTransitions string json string
  | ConflictingSubjectTask string json string
  | MissingColumns "string list"
  | ExtraColumns "string list"
  | CsvValueError nat
  | JSONDecodeError
  | PyTypeError
  | PyKeyError
  | PyIndexError

section \<open>General validation (validate\_utils.py)\<close>

definition conditions :: "string list" where
  "conditions = [''prototype'', ''baseline'']"

text \<open>\<^verbatim>\<open>datetime.fromisoformat\<close> is a library function: it is a parameter \<open>fromisoformat\<close> of the
  model, \<open>None\<close> where the library raises \<^verbatim>\<open>ValueError\<close>. A value that is not a string
  makes the library raise \<^verbatim>\<open>TypeError\<close>, which the \<^verbatim>\<open>except ValueError\<close> lets through.\<close>

fun iso_str_as_datetime :: "(string \<Rightarrow> int option) \<Rightarrow> json \<Rightarrow> error + json" where
  "iso_str_as_datetime fromisoformat (JStr s) =
     (case fromisoformat s of Some t \<Rightarrow> Inr (JDatetime t) | None \<Rightarrow> Inl (NotIsoTimestamp s))"
| "iso_str_as_datetime fromisoformat _ = Inl PyTypeError"

text \<open>The second argument of \<^verbatim>\<open>isinstance\<close> in the schemas: a union of classes, or
  (for the enumerated fields) a list of strings, on which \<^verbatim>\<open>isinstance\<close> would raise.\<close>

datatype pyclass = PyStr | PyInt | PyFloat | PyBool | PyList | PyDictC | PyDatetime

datatype schema_type = Classes "pyclass list" | OneOf "string list"

text \<open>\<^verbatim>\<open>bool\<close> is a subclass of \<^verbatim>\<open>int\<close>.\<close>

fun isinstance1 :: "json \<Rightarrow> pyclass \<Rightarrow> bool" where
  "isinstance1 (JStr _) c = (c = PyStr)"
| "isinstance1 (JInt _) c = (c = PyInt)"
| "isinstance1 (JBool _) c = (c = PyBool \<or> c = PyInt)"
| "isinstance1 (JFloat _) c = (c = PyFloat)"
| "isinstance1 (JList _) c = (c = PyList)"
| "isinstance1 (JDict _) c = (c = PyDictC)"
| "isinstance1 (JDatetime _) c = (c = PyDatetime)"
| "isinstance1 JNull c = False"

fun isinstance :: "json \<Rightarrow> schema_type \<Rightarrow> error + bool" where
  "isinstance v (Classes cs) = Inr (list_ex (isinstance1 v) cs)"
| "isinstance v (OneOf _) = Inl PyTypeError"

section \<open>Subject-Task validation\<close>

definition subject_task_schema :: "(string \<times> schema_type) list" where
  "subject_task_schema =
    [(''subject_id'', Classes [PyStr, PyInt]),
     (''condition'', OneOf conditions),
     (''task_id'', Classes [PyStr, PyInt]),
     (''task_start_time'', Classes [PyDatetime]),
     (''task_total_time'', Classes [PyFloat, PyInt]),
     (''km_pull_total_time'', Classes [PyFloat, PyInt]),
     (''km_push_total_time'', Classes [PyFloat, PyInt]),
     (''task_grade'', Classes [PyStr, PyInt, PyFloat]),
     (''corpus_knowledge_nugget_count'', Classes [PyInt]),
     (''expert_captured_knowledge_nugget_count'', Classes [PyInt]),
     (''nugget_content'', Classes [PyList]),
     (''task_timeout'', Classes [PyBool]),
     (''optional_content'', Classes [PyDictC])]"

text \<open>The presence loop shared by both shapes: the first schema attribute that is absent
  and is not \<^verbatim>\<open>optional_content\<close> raises.\<close>

fun fields_present :: "string list \<Rightarrow> pydict \<Rightarrow> error + unit" where
  "fields_present [] d = Inr ()"
| "fields_present (attr # attrs) d =
     (if \<not> dict_in attr d \<and> attr \<noteq> ''optional_content'' then Inl (AttributeNotFound attr)
      else fields_present attrs d)"

definition verify_all_subject_task_fields_present :: "pydict \<Rightarrow> error + unit" where
  "verify_all_subject_task_fields_present subject_task_input =
     fields_present (map fst subject_task_schema) subject_task_input"

text \<open>The type loop visits the attributes of the input in order. A schema lookup that
  raises \<^verbatim>\<open>KeyError\<close> continues with the next attribute.\<close>

fun subject_task_types :: "(string \<times> json) list \<Rightarrow> nat \<Rightarrow> error + unit" where
  "subject_task_types [] line_no = Inr ()"
| "subject_task_types ((attr, v) # rest) line_no =
     (if attr = ''condition'' then
        (if v \<notin> JStr ` set conditions then Inl (NotOneOf attr line_no)
         else subject_task_types rest line_no)
      else
        (case dict_get subject_task_schema attr of
           None \<Rightarrow> subject_task_types rest line_no
         | Some ty \<Rightarrow>
             (case isinstance v ty of
                Inl e \<Rightarrow> Inl e
              | Inr ok \<Rightarrow> if \<not> ok then Inl (NotType attr line_no)
                          else subject_task_types rest line_no)))"

definition type_check_subject_task_fields :: "pydict \<Rightarrow> nat \<Rightarrow> error + unit" where
  "type_check_subject_task_fields subject_task_input line_no =
     subject_task_types subject_task_input line_no"

section \<open>State-Transition validation\<close>

definition state_ids :: "string list" where
  "state_ids = [''task_initialized'', ''task_execution'', ''km_push_activity'',
                ''km_pull_activity'', ''task_conclusion'']"

definition state_transition_schema :: "(string \<times> schema_type) list" where
  "state_transition_schema =
    [(''subject_id'', Classes [PyStr, PyInt]),
     (''condition'', OneOf conditions),
     (''task_id'', Classes [PyStr, PyInt]),
     (''utc_timestamp'', Classes [PyDatetime]),
     (''state_id'', OneOf state_ids),
     (''optional_content'', Classes [PyDictC])]"

definition valid_state_transitions :: "(string \<times> string) list" where
  "valid_state_transitions =
    [(''task_initialized'', ''task_execution''),
     (''task_initialized'', ''km_pull_activity''),
     (''task_initialized'', ''km_push_activity''),
     (''task_initialized'', ''task_conclusion''),
     (''task_execution'', ''task_execution''),
     (''task_execution'', ''km_push_activity''),
     (''km_push_activity'', ''task_execution''),
     (''km_push_activity'', ''km_pull_activity''),
     (''km_push_activity'', ''task_conclusion''),
     (''km_pull_activity'', ''km_push_activity''),
     (''km_pull_activity'', ''task_execution''),
     (''km_pull_activity'', ''task_conclusion''),
     (''task_execution'', ''km_pull_activity''),
     (''task_execution'', ''task_conclusion'')]"

definition initial_state_id :: string where
  "initial_state_id = ''task_initialized''"

definition verify_all_state_transition_fields_present :: "pydict \<Rightarrow> error + unit" where
  "verify_all_state_transition_fields_present state_transition_input =
     fields_present (map fst state_transition_schema) state_transition_input"

fun state_transition_types :: "(string \<times> json) list \<Rightarrow> nat \<Rightarrow> error + unit" where
  "state_transition_types [] line_no = Inr ()"
| "state_transition_types ((attr, v) # rest) line_no =
     (if attr = ''state_id'' then
        (if v \<notin> JStr ` set state_ids then Inl (NotOneOf attr line_no)
         else state_transition_types rest line_no)
      else if attr = ''condition'' then
        (if v \<notin> JStr ` set conditions then Inl (NotOneOf attr line_no)
         else state_transition_types rest line_no)
      else
        (case dict_get state_transition_schema attr of
           None \<Rightarrow> state_transition_types rest line_no
         | Some ty \<Rightarrow>
             (case isinstance v ty of
                Inl e \<Rightarrow> Inl e
              | Inr ok \<Rightarrow> if \<not> ok then Inl (NotType attr line_no)
                          else state_transition_types rest line_no)))"

definition type_check_state_transition_fields :: "pydict \<Rightarrow> nat \<Rightarrow> error + unit" where
  "type_check_state_transition_fields state_transition_input line_no =
     state_transition_types state_transition_input line_no"

definition verify_timestamps_inorder ::
    "int \<Rightarrow> int \<Rightarrow> nat \<Rightarrow> nat \<Rightarrow> string \<Rightarrow> error + unit" where
  "verify_timestamps_inorder timestamp_1 timestamp_2 timestamp_1_line_no timestamp_2_line_no
       previous_state_id =
     (if timestamp_1 \<ge> timestamp_2 \<and> previous_state_id \<noteq> initial_state_id
      then Inl (TimestampBefore timestamp_2_line_no timestamp_1_line_no)
      else Inr ())"

definition verify_state_transition_valid ::
    "string \<Rightarrow> string \<Rightarrow> nat \<Rightarrow> nat \<Rightarrow> error + unit" where
  "verify_state_transition_valid state_id_1 state_id_2 state_id_1_line_no state_id_2_line_no =
     (if (state_id_1, state_id_2) \<notin> set valid_state_transitions
      then Inl (TransitionNotValid state_id_1_line_no state_id_2_line_no)
      else Inr ())"

text \<open>The two boundary checks index a list of events: \<^verbatim>\<open>[0]\<close> and \<^verbatim>\<open>[-1]\<close> raise
  \<^verbatim>\<open>IndexError\<close> on the empty list, and the subscript \<^verbatim>\<open>["state_id"]\<close> raises
  \<^verbatim>\<open>KeyError\<close> when the event lacks the field.\<close>

definition state_id_is :: "pydict \<Rightarrow> string \<Rightarrow> error + bool" where
  "state_id_is ev s =
     (case dict_get ev ''state_id'' of None \<Rightarrow> Inl PyKeyError | Some v \<Rightarrow> Inr (v = JStr s))"

definition verify_first_state_is_task_initialized ::
    "pydict list \<Rightarrow> string \<Rightarrow> nat \<Rightarrow> error + unit" where
  "verify_first_state_is_task_initialized state_transitions subject_task_identifier line_no =
     (case state_transitions of
        [] \<Rightarrow> Inl PyIndexError
      | ev # _ \<Rightarrow>
          (case state_id_is ev ''task_initialized'' of
             Inl e \<Rightarrow> Inl e
           | Inr same \<Rightarrow>
               if \<not> same then Inl (FirstStateNotInitialized subject_task_identifier line_no)
               else Inr ()))"

definition verify_last_state_is_task_conclusion ::
    "pydict list \<Rightarrow> string \<Rightarrow> nat \<Rightarrow> error + unit" where
  "verify_last_state_is_task_conclusion state_transitions subject_task_identifier line_no =
     (if state_transitions = [] then Inl PyIndexError
      else
        (case state_id_is (last state_transitions) ''task_conclusion'' of
           Inl e \<Rightarrow> Inl e
         | Inr same \<Rightarrow>
             if \<not> same then Inl (LastStateNotConclusion subject_task_identifier line_no)
             else Inr ()))"

section \<open>Loading a State-Transitions file (file\_utils.py)\<close>

definition bind_err :: "error + 'a \<Rightarrow> ('a \<Rightarrow> error + 'b) \<Rightarrow> error + 'b" where
  "bind_err m f = (case m of Inl e \<Rightarrow> Inl e | Inr x \<Rightarrow> f x)"

text \<open>The f-string that builds the session identifier formats a string as itself, an
  integer in decimal and a boolean as \<^verbatim>\<open>True\<close> or \<^verbatim>\<open>False\<close>. The type check lets no
  other value reach it; the model answers \<open>None\<close> for them.\<close>

fun decimal :: "nat \<Rightarrow> string" where
  "decimal n = (if 10 \<le> n then decimal (n div 10) else []) @ [''0123456789'' ! (n mod 10)]"

fun format_value :: "json \<Rightarrow> string option" where
  "format_value (JStr s) = Some s"
| "format_value (JInt i) =
     Some (if i < 0 then CHR ''-'' # decimal (nat (- i)) else decimal (nat i))"
| "format_value (JBool b) = Some (if b then ''True'' else ''False'')"
| "format_value _ = None"

definition session_identifier :: "pydict \<Rightarrow> error + string" where
  "session_identifier json_in =
     (case (dict_get json_in ''subject_id'', dict_get json_in ''condition'',
            dict_get json_in ''task_id'') of
        (Some s, Some c, Some t) \<Rightarrow>
          (case (format_value s, format_value c, format_value t) of
             (Some s', Some c', Some t') \<Rightarrow> Inr (s' @ ''_'' @ c' @ ''_'' @ t')
           | _ \<Rightarrow> Inl PyTypeError)
      | _ \<Rightarrow> Inl PyKeyError)"

text \<open>What the loader remembers of the most recent event of a session, and the record it
  builds for the session. The record is the dictionary of the source with its fixed keys;
  \<open>record_as_dict\<close> gives it back as the dictionary the loader returns.\<close>

record previous_state =
  prev_utc_timestamp :: int
  prev_state_id :: string
  prev_line_no :: nat

record session_record =
  subject_id :: json
  condition :: json
  task_id :: json
  task_start_time :: int
  task_total_time :: real
  km_pull_total_time :: real
  km_push_total_time :: real
  state_transitions :: "pydict list"

definition record_as_dict :: "session_record \<Rightarrow> pydict" where
  "record_as_dict r =
    [(''subject_id'', subject_id r),
     (''condition'', condition r),
     (''task_id'', task_id r),
     (''task_start_time'', JDatetime (task_start_time r)),
     (''task_total_time'', JFloat (task_total_time r)),
     (''km_pull_total_time'', JFloat (km_pull_total_time r)),
     (''km_push_total_time'', JFloat (km_push_total_time r)),
     (''state_transitions'', JList (map JDict (state_transitions r)))]"

text \<open>\<^verbatim>\<open>(t2 - t1).total_seconds()\<close>\<close>

definition total_seconds :: "int \<Rightarrow> real" where
  "total_seconds d = real_of_int d / 1000000"

text \<open>Reading a field whose value must be a \<^verbatim>\<open>datetime\<close>, or a string, for the
  operations applied to it.\<close>

definition get_datetime :: "pydict \<Rightarrow> string \<Rightarrow> error + int" where
  "get_datetime d k =
     (case dict_get d k of
        None \<Rightarrow> Inl PyKeyError
      | Some v \<Rightarrow> (case v of JDatetime t \<Rightarrow> Inr t | _ \<Rightarrow> Inl PyTypeError))"

definition get_str :: "pydict \<Rightarrow> string \<Rightarrow> error + string" where
  "get_str d k =
     (case dict_get d k of
        None \<Rightarrow> Inl PyKeyError
      | Some v \<Rightarrow> (case v of JStr s \<Rightarrow> Inr s | _ \<Rightarrow> Inl PyTypeError))"

text \<open>The checks on one line alone: presence, the conversion of the timestamp (stored
  back into the line), the type check, the identifier. The result is the converted line
  with its identifier, timestamp and state; after the type check the timestamp is a
  \<^verbatim>\<open>datetime\<close> and the state a string.\<close>

definition check_line ::
    "(string \<Rightarrow> int option) \<Rightarrow> nat \<Rightarrow> pydict \<Rightarrow> error + (pydict \<times> string \<times> int \<times> string)" where
  "check_line fromisoformat line_no json_in0 =
     bind_err (verify_all_state_transition_fields_present json_in0) (\<lambda>_.
     bind_err (case dict_get json_in0 ''utc_timestamp'' of
                 None \<Rightarrow> Inl PyKeyError
               | Some v \<Rightarrow> iso_str_as_datetime fromisoformat v) (\<lambda>dt.
     let json_in = dict_set json_in0 ''utc_timestamp'' dt in
     bind_err (type_check_state_transition_fields json_in line_no) (\<lambda>_.
     bind_err (session_identifier json_in) (\<lambda>subject_task_identifier.
     bind_err (get_datetime json_in ''utc_timestamp'') (\<lambda>t.
     bind_err (get_str json_in ''state_id'') (\<lambda>s.
       Inr (json_in, subject_task_identifier, t, s)))))))"

text \<open>The checks between sequential lines of one session and the bookkeeping, in the order
  of the loop body: with a remembered event the two transition checks, without one the new
  record and the first-state check; then the elapsed time is added (attributed to the
  state being left), the line is appended and remembered.\<close>

definition new_record :: "pydict \<Rightarrow> int \<Rightarrow> error + session_record" where
  "new_record json_in ts =
     (case (dict_get json_in ''subject_id'', dict_get json_in ''condition'',
            dict_get json_in ''task_id'') of
        (Some s, Some c, Some t) \<Rightarrow>
          Inr \<lparr>subject_id = s, condition = c, task_id = t, task_start_time = ts,
               task_total_time = 0, km_pull_total_time = 0, km_push_total_time = 0,
               state_transitions = []\<rparr>
      | _ \<Rightarrow> Inl PyKeyError)"

type_synonym loader_state =
  "(string \<times> previous_state) list \<times> (string \<times> session_record) list"

definition reduce_line ::
    "nat \<Rightarrow> loader_state \<Rightarrow> pydict \<times> string \<times> int \<times> string \<Rightarrow> error + loader_state" where
  "reduce_line line_no st ev =
     (case (st, ev) of ((subject_task_state, recs), (json_in, ident, ts, sid)) \<Rightarrow>
       bind_err
         (case dict_get subject_task_state ident of
            Some previous \<Rightarrow>
              bind_err (verify_timestamps_inorder (prev_utc_timestamp previous) ts
                          (prev_line_no previous) line_no (prev_state_id previous)) (\<lambda>_.
              bind_err (verify_state_transition_valid (prev_state_id previous) sid
                          (prev_line_no previous) line_no) (\<lambda>_. Inr recs))
          | None \<Rightarrow>
              bind_err (new_record json_in ts) (\<lambda>r0.
              bind_err (verify_first_state_is_task_initialized [json_in] ident line_no) (\<lambda>_.
                Inr (dict_set recs ident r0))))
         (\<lambda>recs1.
            case dict_get recs1 ident of
              None \<Rightarrow> Inl PyKeyError
            | Some r \<Rightarrow>
                let r1 =
                  (case dict_get subject_task_state ident of
                     Some previous \<Rightarrow>
                       let elapsed_time = total_seconds (ts - prev_utc_timestamp previous);
                           r' = r\<lparr>task_total_time := task_total_time r + elapsed_time\<rparr>;
                           r'' = (if prev_state_id previous = ''km_pull_activity''
                                  then r'\<lparr>km_pull_total_time := km_pull_total_time r' + elapsed_time\<rparr>
                                  else r')
                       in (if prev_state_id previous = ''km_push_activity''
                           then r''\<lparr>km_push_total_time := km_push_total_time r'' + elapsed_time\<rparr>
                           else r'')
                   | None \<Rightarrow> r)
                in Inr (dict_set subject_task_state ident
                          \<lparr>prev_utc_timestamp = ts, prev_state_id = sid, prev_line_no = line_no\<rparr>,
                        dict_set recs1 ident
                          (r1\<lparr>state_transitions := state_transitions r1 @ [json_in]\<rparr>))))"

fun read_lines ::
    "(string \<Rightarrow> int option) \<Rightarrow> nat \<Rightarrow> loader_state \<Rightarrow> pydict list \<Rightarrow> error + loader_state" where
  "read_lines fromisoformat line_no st [] = Inr st"
| "read_lines fromisoformat line_no st (json_in # rest) =
     bind_err (check_line fromisoformat line_no json_in) (\<lambda>ev.
     bind_err (reduce_line line_no st ev) (\<lambda>st'.
     read_lines fromisoformat (line_no + 1) st' rest))"

text \<open>The loop over the sessions after the last line, in the order the sessions were first
  seen.\<close>

fun last_states ::
    "(string \<times> previous_state) list \<Rightarrow> (string \<times> session_record) list \<Rightarrow> error + unit" where
  "last_states subject_task_state [] = Inr ()"
| "last_states subject_task_state ((ident, r) # rest) =
     (case dict_get subject_task_state ident of
        None \<Rightarrow> Inl PyKeyError
      | Some previous \<Rightarrow>
          bind_err (verify_last_state_is_task_conclusion (state_transitions r) ident
                      (prev_line_no previous)) (\<lambda>_.
          last_states subject_task_state rest))"

definition load_state_transitions_records ::
    "(string \<Rightarrow> int option) \<Rightarrow> pydict list \<Rightarrow> error + (string \<times> session_record) list" where
  "load_state_transitions_records fromisoformat file_lines =
     bind_err (read_lines fromisoformat 1 ([], []) file_lines) (\<lambda>st.
     bind_err (last_states (fst st) (snd st)) (\<lambda>_. Inr (snd st)))"

definition load_state_transitions_file ::
    "(string \<Rightarrow> int option) \<Rightarrow> pydict list \<Rightarrow> error + (string \<times> pydict) list" where
  "load_state_transitions_file fromisoformat file_lines =
     bind_err (load_state_transitions_records fromisoformat file_lines) (\<lambda>recs.
       Inr (map (\<lambda>(ident, r). (ident, record_as_dict r)) recs))"

section \<open>Loading a Subject-Task file\<close>

fun subject_task_lines ::
    "(string \<Rightarrow> int option) \<Rightarrow> nat \<Rightarrow> (string \<times> pydict) list \<Rightarrow> pydict list
       \<Rightarrow> error + (string \<times> pydict) list" where
  "subject_task_lines fromisoformat line_no subject_tasks [] = Inr subject_tasks"
| "subject_task_lines fromisoformat line_no subject_tasks (json_in0 # rest) =
     bind_err (verify_all_subject_task_fields_present json_in0) (\<lambda>_.
     bind_err (case dict_get json_in0 ''task_start_time'' of
                 None \<Rightarrow> Inl PyKeyError
               | Some v \<Rightarrow> iso_str_as_datetime fromisoformat v) (\<lambda>dt.
     let json_in = dict_set json_in0 ''task_start_time'' dt in
     bind_err (type_check_subject_task_fields json_in line_no) (\<lambda>_.
     bind_err (session_identifier json_in) (\<lambda>subject_condition_task_identifier.
     subject_task_lines fromisoformat (line_no + 1)
       (dict_set subject_tasks subject_condition_task_identifier json_in) rest))))"

definition load_subject_task_file ::
    "(string \<Rightarrow> int option) \<Rightarrow> pydict list \<Rightarrow> error + (string \<times> pydict) list" where
  "load_subject_task_file fromisoformat file_lines =
     subject_task_lines fromisoformat 1 [] file_lines"

section \<open>Identifying the shape of a JSONL file\<close>

text \<open>The first line is probed for the Subject-Task fields, then for the State-Transition
  fields. Reading the first line of an empty file gives the empty string, which
  \<^verbatim>\<open>json.loads\<close> refuses.\<close>

definition load_jsonl_file ::
    "(string \<Rightarrow> int option) \<Rightarrow> pydict list \<Rightarrow> error + (string \<times> pydict) list" where
  "load_jsonl_file fromisoformat file_lines =
     (case file_lines of
        [] \<Rightarrow> Inl JSONDecodeError
      | first_line_json # _ \<Rightarrow>
          (case verify_all_subject_task_fields_present first_line_json of
             Inr _ \<Rightarrow> load_subject_task_file fromisoformat file_lines
           | Inl err1 \<Rightarrow>
               (case verify_all_state_transition_fields_present first_line_json of
                  Inr _ \<Rightarrow> load_state_transitions_file fromisoformat file_lines
                | Inl err2 \<Rightarrow> Inl (CouldNotIdentify err1 err2))))"

section \<open>Task metadata (CSV)\<close>

definition required_column_names :: "string list" where
  "required_column_names = [''task_id'', ''task_optimal_time_in_seconds'', ''task_maximum_score'']"

definition optional_column_names :: "string list" where
  "optional_column_names = [''task_passing_score'']"

text \<open>The loop that removes the optional names from \<^verbatim>\<open>extra_columns\<close> while iterating
  over it: Python's list iterator is an index into the list, and \<^verbatim>\<open>remove\<close> deletes
  the first occurrence, so the element that follows a removed one is skipped.\<close>

function remove_optional :: "nat \<Rightarrow> string list \<Rightarrow> string list" where
  "remove_optional i extra_columns =
     (if i < length extra_columns then
        (if extra_columns ! i \<in> set optional_column_names
         then remove_optional (i + 1) (remove1 (extra_columns ! i) extra_columns)
         else remove_optional (i + 1) extra_columns)
      else extra_columns)"
  by pat_completeness auto
termination
  by (relation "measure (\<lambda>(i, extra_columns). length extra_columns - i)")
     (auto simp: length_remove1)

declare remove_optional.simps [simp del]

text \<open>\<^verbatim>\<open>list(set(...))\<close> lists the elements of a set in an order the language does not
  fix: the order is the parameter \<open>listing\<close>, applied to the elements without repetition.\<close>

definition verify_column_names ::
    "(string list \<Rightarrow> string list) \<Rightarrow> string list \<Rightarrow> error + unit" where
  "verify_column_names listing column_names =
     (let missing_columns =
            listing (filter (\<lambda>c. c \<notin> set column_names) (remdups required_column_names));
          extra_columns =
            remove_optional 0
              (listing (filter (\<lambda>c. c \<notin> set required_column_names) (remdups column_names)))
      in if missing_columns \<noteq> [] then Inl (MissingColumns missing_columns)
         else if extra_columns \<noteq> [] then Inl (ExtraColumns extra_columns)
         else Inr ())"

text \<open>A cell of a row after conversion. \<^verbatim>\<open>float\<close> and \<^verbatim>\<open>int\<close> applied to a string
  are library functions, parameters of the model (\<open>None\<close> is their \<^verbatim>\<open>ValueError\<close>);
  an index past the end of the row raises \<^verbatim>\<open>IndexError\<close>, which is not caught.\<close>

datatype cell = CellStr string | CellFloat real | CellInt int

definition verify_row_types ::
    "(string \<Rightarrow> real option) \<Rightarrow> (string \<Rightarrow> int option) \<Rightarrow> string list \<Rightarrow> nat
       \<Rightarrow> error + cell list" where
  "verify_row_types float_of int_of row row_no =
     (if length row \<le> 1 then Inl PyIndexError
      else case float_of (row ! 1) of
        None \<Rightarrow> Inl (CsvValueError row_no)
      | Some optimal \<Rightarrow>
          if length row \<le> 2 then Inl PyIndexError
          else case int_of (row ! 2) of
            None \<Rightarrow> Inl (CsvValueError row_no)
          | Some maximum \<Rightarrow>
              let row' = (map CellStr row)[1 := CellFloat optimal, 2 := CellInt maximum] in
              if length row > 3 \<and> row ! 3 \<noteq> [] then
                (case float_of (row ! 3) of
                   None \<Rightarrow> Inl (CsvValueError row_no)
                 | Some passing \<Rightarrow> Inr (row'[3 := CellFloat passing]))
              else Inr row')"

fun row_attributes ::
    "string list \<Rightarrow> nat \<Rightarrow> (string \<times> cell) list \<Rightarrow> cell list \<Rightarrow> error + (string \<times> cell) list" where
  "row_attributes column_names j attributes [] = Inr attributes"
| "row_attributes column_names j attributes (col # cols) =
     (if j = 0 then row_attributes column_names (j + 1) attributes cols
      else if j < length column_names
      then row_attributes column_names (j + 1) (dict_set attributes (column_names ! j) col) cols
      else Inl PyIndexError)"

fun csv_rows ::
    "(string \<Rightarrow> real option) \<Rightarrow> (string \<Rightarrow> int option) \<Rightarrow> string list \<Rightarrow> nat
       \<Rightarrow> (string \<times> (string \<times> cell) list) list \<Rightarrow> string list list
       \<Rightarrow> error + (string \<times> (string \<times> cell) list) list" where
  "csv_rows float_of int_of column_names i tasks [] = Inr tasks"
| "csv_rows float_of int_of column_names i tasks (row # rest) =
     bind_err (verify_row_types float_of int_of row (i + 1)) (\<lambda>cells.
     bind_err (row_attributes column_names 0 [] cells) (\<lambda>attributes.
     csv_rows float_of int_of column_names (i + 1) (dict_set tasks (row ! 0) attributes) rest))"

definition load_csv_file ::
    "(string list \<Rightarrow> string list) \<Rightarrow> (string \<Rightarrow> real option) \<Rightarrow> (string \<Rightarrow> int option)
       \<Rightarrow> string list list \<Rightarrow> error + (string \<times> (string \<times> cell) list) list" where
  "load_csv_file listing float_of int_of file_rows =
     (case file_rows of
        [] \<Rightarrow> Inr []
      | header # rest \<Rightarrow>
          bind_err (verify_column_names listing header) (\<lambda>_.
            csv_rows float_of int_of header 1 [] rest))"

section \<open>Reconciling a directory\<close>

text \<open>Python's \<^verbatim>\<open>==\<close> on the values of the model: numbers (booleans included) compare by
  value across their types, lists element by element, dictionaries by their keys and
  the values under them whatever the insertion order, and values of unrelated types are
  different.\<close>

fun py_num :: "json \<Rightarrow> real option" where
  "py_num (JBool b) = Some (if b then 1 else 0)"
| "py_num (JInt i) = Some (real_of_int i)"
| "py_num (JFloat x) = Some x"
| "py_num _ = None"

fun py_eq :: "json \<Rightarrow> json \<Rightarrow> bool" where
  "py_eq (JList xs) (JList ys) = list_all2 py_eq xs ys"
| "py_eq (JDict a) (JDict b) =
     (length a = length b \<and>
      list_all (\<lambda>(k, v). case map_of b k of None \<Rightarrow> False | Some w \<Rightarrow> py_eq v w) a)"
| "py_eq (JStr s) (JStr t) = (s = t)"
| "py_eq (JDatetime s) (JDatetime t) = (s = t)"
| "py_eq JNull JNull = True"
| "py_eq a b = (case (py_num a, py_num b) of (Some x, Some y) \<Rightarrow> x = y | _ \<Rightarrow> False)"

definition TIME_DIFFERENCE_THRESHOLD :: real where
  "TIME_DIFFERENCE_THRESHOLD = 1"

text \<open>A printed warning: the session, the two values and the two files.\<close>

datatype warning =
    ConflictingTotalTime string json json json string
  | ConflictingKmPullTime string json json json string

text \<open>The body of the loop over the entries of one loaded file. \<open>jsonl_contents\<close> is the
  mapping built so far, \<open>recorded\<close> the record it holds for the session and \<open>incoming\<close>
  the record of the file being merged.\<close>

definition merge_entry ::
    "string \<Rightarrow> (string \<times> pydict) list \<times> warning list \<Rightarrow> string \<times> pydict
       \<Rightarrow> error + (string \<times> pydict) list \<times> warning list" where
  "merge_entry filename acc kv =
     (case (acc, kv) of ((jsonl_contents, warnings), (entry, incoming)) \<Rightarrow>
       (case dict_get jsonl_contents entry of
          None \<Rightarrow>
            Inr (dict_set jsonl_contents entry (dict_set incoming ''file_source'' (JStr filename)),
                 warnings)
        | Some recorded \<Rightarrow>
            (case (dict_get recorded ''task_total_time'', dict_get recorded ''km_pull_total_time'',
                   dict_get recorded ''file_source'', dict_get incoming ''task_total_time'',
                   dict_get incoming ''km_pull_total_time'') of
               (Some recorded_total_time, Some recorded_km_time, Some recorded_file,
                Some new_total_time, Some new_km_time) \<Rightarrow>
                 (case (py_num recorded_total_time, py_num new_total_time,
                        py_num recorded_km_time, py_num new_km_time) of
                    (Some rt, Some nt, Some rk, Some nk) \<Rightarrow>
                      let warnings' = warnings
                            @ (if \<bar>rt - nt\<bar> > TIME_DIFFERENCE_THRESHOLD
                               then [ConflictingTotalTime entry recorded_total_time recorded_file
                                       new_total_time filename] else [])
                            @ (if \<bar>rk - nk\<bar> > TIME_DIFFERENCE_THRESHOLD
                               then [ConflictingKmPullTime entry recorded_km_time recorded_file
                                       new_km_time filename] else [])
                      in
                      (case (dict_get recorded ''state_transitions'',
                             dict_get incoming ''state_transitions'') of
                         (Some sequence, None) \<Rightarrow>
                           Inr (dict_set jsonl_contents entry
                                  (dict_set (dict_set incoming ''state_transitions'' sequence)
                                     ''file_source'' (JStr filename)),
                                warnings')
                       | (None, Some sequence) \<Rightarrow>
                           Inr (dict_set jsonl_contents entry
                                  (dict_set recorded ''state_transitions'' sequence),
                                warnings')
                       | (Some _, Some _) \<Rightarrow>
                           if \<not> py_eq (JDict incoming) (JDict (dict_del recorded ''file_source''))
                           then Inl (ConflictingStateTransitions entry recorded_file filename)
                           else Inr (jsonl_contents, warnings')
                       | (None, None) \<Rightarrow>
                           if \<not> py_eq (JDict incoming) (JDict (dict_del recorded ''file_source''))
                           then Inl (ConflictingSubjectTask entry recorded_file filename)
                           else Inr (jsonl_contents, warnings'))
                  | _ \<Rightarrow> Inl PyTypeError)
             | _ \<Rightarrow> Inl PyKeyError)))"

fun merge_entries ::
    "string \<Rightarrow> (string \<times> pydict) list \<times> warning list \<Rightarrow> (string \<times> pydict) list
       \<Rightarrow> error + (string \<times> pydict) list \<times> warning list" where
  "merge_entries filename acc [] = Inr acc"
| "merge_entries filename acc (kv # rest) =
     bind_err (merge_entry filename acc kv) (\<lambda>acc'. merge_entries filename acc' rest)"

text \<open>A file of the directory: its name, and its content as the JSONL loaders read it
  (one parsed object per line) and as \<^verbatim>\<open>csv.reader\<close> reads it (one list of strings per
  row). The extension is what \<^verbatim>\<open>os.path.splitext\<close> returns for a bare file name: the
  part from the last dot on, when something other than dots stands before that dot.\<close>

record dir_entry =
  entry_name :: string
  entry_lines :: "pydict list"
  entry_rows :: "string list list"

definition splitext_ext :: "string \<Rightarrow> string" where
  "splitext_ext name =
     (let stripped = dropWhile (\<lambda>c. c = CHR ''.'') name
      in if CHR ''.'' \<in> set stripped
         then CHR ''.'' # rev (takeWhile (\<lambda>c. c \<noteq> CHR ''.'') (rev stripped))
         else [])"

record directory_result =
  jsonl_contents :: "(string \<times> pydict) list"
  csv_metadata :: "(string \<times> (string \<times> cell) list) list"
  printed :: "warning list"

fun load_files ::
    "(string \<Rightarrow> int option) \<Rightarrow> (string list \<Rightarrow> string list) \<Rightarrow> (string \<Rightarrow> real option)
       \<Rightarrow> (string \<Rightarrow> int option) \<Rightarrow> directory_result \<Rightarrow> dir_entry list
       \<Rightarrow> error + directory_result" where
  "load_files fromisoformat listing float_of int_of res [] = Inr res"
| "load_files fromisoformat listing float_of int_of res (f # rest) =
     (if splitext_ext (entry_name f) = ''.jsonl'' then
        bind_err (load_jsonl_file fromisoformat (entry_lines f)) (\<lambda>file_contents.
        bind_err (merge_entries (entry_name f) (jsonl_contents res, printed res) file_contents)
          (\<lambda>acc.
        load_files fromisoformat listing float_of int_of
          (res\<lparr>jsonl_contents := fst acc, printed := snd acc\<rparr>) rest))
      else if entry_name f = ''task_metadata.csv'' then
        bind_err (load_csv_file listing float_of int_of (entry_rows f)) (\<lambda>file_contents.
        load_files fromisoformat listing float_of int_of
          (res\<lparr>csv_metadata := fold (\<lambda>kv m. dict_set m (fst kv) (snd kv)) file_contents
                                  (csv_metadata res)\<rparr>) rest)
      else load_files fromisoformat listing float_of int_of res rest)"

definition load_directory ::
    "(string \<Rightarrow> int option) \<Rightarrow> (string list \<Rightarrow> string list) \<Rightarrow> (string \<Rightarrow> real option)
       \<Rightarrow> (string \<Rightarrow> int option) \<Rightarrow> dir_entry list \<Rightarrow> error + directory_result" where
  "load_directory fromisoformat listing float_of int_of dir_contents =
     load_files fromisoformat listing float_of int_of
       \<lparr>jsonl_contents = [], csv_metadata = [], printed = []\<rparr> dir_contents"

section \<open>The timing aggregates as the specification words them\<close>

text \<open>The per-line checks applied to every line of a file, each with its 1-based line
  number: the converted lines with their identifier, timestamp and state.\<close>

fun checked_lines ::
    "(string \<Rightarrow> int option) \<Rightarrow> nat \<Rightarrow> pydict list
       \<Rightarrow> error + (pydict \<times> string \<times> int \<times> string) list" where
  "checked_lines fromisoformat line_no [] = Inr []"
| "checked_lines fromisoformat line_no (json_in # rest) =
     bind_err (check_line fromisoformat line_no json_in) (\<lambda>ev.
     bind_err (checked_lines fromisoformat (line_no + 1) rest) (\<lambda>evs. Inr (ev # evs)))"

fun reduce_lines ::
    "nat \<Rightarrow> loader_state \<Rightarrow> (pydict \<times> string \<times> int \<times> string) list \<Rightarrow> error + loader_state" where
  "reduce_lines line_no st [] = Inr st"
| "reduce_lines line_no st (ev # evs) =
     bind_err (reduce_line line_no st ev) (\<lambda>st'. reduce_lines (line_no + 1) st' evs)"

text \<open>An event is a timestamp with a state. \<open>is_legal_ordering\<close> and \<open>is_legal_edge\<close>
  are the two contracts of the specification's transition state machine; a legal
  sequence starts at \<^verbatim>\<open>task_initialized\<close>, ends at \<^verbatim>\<open>task_conclusion\<close> and takes only
  legal steps.\<close>

definition is_legal_ordering :: "int \<Rightarrow> int \<Rightarrow> string \<Rightarrow> bool" where
  "is_legal_ordering t1 t2 from_state =
     (t2 > t1 \<or> (t2 \<ge> t1 \<and> from_state = ''task_initialized''))"






text \<open>What one accepted event does to the record of its session: the elapsed time since
  the remembered event is added to the total, and to the pull or push total when the
  remembered state is that activity; the line is appended.\<close>

definition advance :: "previous_state \<Rightarrow> session_record \<Rightarrow> int \<Rightarrow> pydict \<Rightarrow> session_record" where
  "advance previous r ts json_in =
     r\<lparr>task_total_time :=
           task_total_time r + total_seconds (ts - prev_utc_timestamp previous),
       km_pull_total_time :=
           km_pull_total_time r +
             (if prev_state_id previous = ''km_pull_activity''
              then total_seconds (ts - prev_utc_timestamp previous) else 0),
       km_push_total_time :=
           km_push_total_time r +
             (if prev_state_id previous = ''km_push_activity''
              then total_seconds (ts - prev_utc_timestamp previous) else 0),
       state_transitions := state_transitions r @ [json_in]\<rparr>"

text \<open>The event last seen for a session among the checked lines of a file, as the loader
  remembers it: timestamp, state and line number.\<close>

fun last_seen ::
    "string \<Rightarrow> nat \<Rightarrow> (pydict \<times> string \<times> int \<times> string) list \<Rightarrow> previous_state option
       \<Rightarrow> previous_state option" where
  "last_seen k line_no [] seen = seen"
| "last_seen k line_no (ev # evs) seen =
     last_seen k (line_no + 1) evs
       (if fst (snd ev) = k
        then Some \<lparr>prev_utc_timestamp = fst (snd (snd ev)), prev_state_id = snd (snd (snd ev)),
                   prev_line_no = line_no\<rparr>
        else seen)"

text \<open>Between two lines the two dictionaries of the loader hold the same sessions in the
  same order, and the last line appended to a session's record is the remembered event.\<close>

definition session_tail_agrees ::
    "string \<times> previous_state \<Rightarrow> string \<times> session_record \<Rightarrow> bool" where
  "session_tail_agrees kp kr =
     (fst kp = fst kr \<and> state_transitions (snd kr) \<noteq> [] \<and>
      dict_get (last (state_transitions (snd kr))) ''state_id''
        = Some (JStr (prev_state_id (snd kp))))"

definition loader_invariant :: "loader_state \<Rightarrow> bool" where
  "loader_invariant st =
     (list_all2 session_tail_agrees (fst st) (snd st) \<and> distinct (map fst (fst st)))"

definition checked_event :: "pydict \<times> string \<times> int \<times> string \<Rightarrow> bool" where
  "checked_event ev =
     (dict_get (fst ev) ''state_id'' = Some (JStr (snd (snd (snd ev)))) \<and>
      session_identifier (fst ev) = Inr (fst (snd ev)))"

text \<open>The representation invariant of the values: the keys of every dictionary, at any
  depth, are pairwise distinct (a Python \<^verbatim>\<open>dict\<close> holds a key once). The records the
  State-Transitions loader builds from such lines keep it.\<close>

fun wf_json :: "json \<Rightarrow> bool" where
  "wf_json (JList xs) = list_all wf_json xs"
| "wf_json (JDict a) = (distinct (map fst a) \<and> list_all (\<lambda>kv. wf_json (snd kv)) a)"
| "wf_json _ = True"

definition wf_record :: "session_record \<Rightarrow> bool" where
  "wf_record r =
     (wf_json (subject_id r) \<and> wf_json (condition r) \<and> wf_json (task_id r) \<and>
      list_all (\<lambda>l. wf_json (JDict l)) (state_transitions r))"

section \<open>Sample inputs\<close>

text \<open>A clock that reads three timestamps (at 0, 30 and 90 seconds, in microseconds), a
  State-Transition line and a Subject-Task line of the session
  \<^verbatim>\<open>U1\<close>, \<^verbatim>\<open>prototype\<close>, \<^verbatim>\<open>Task1\<close>, and a directory entry holding a JSONL file.\<close>

definition sample_clock :: "string \<Rightarrow> int option" where
  "sample_clock s =
     (if s = ''1970-01-01T00:00:00'' then Some 0
      else if s = ''1970-01-01T00:00:30'' then Some 30000000
      else if s = ''1970-01-01T00:01:30'' then Some 90000000
      else None)"

definition sample_event :: "string \<Rightarrow> string \<Rightarrow> pydict" where
  "sample_event time_text state =
     [(''subject_id'', JStr ''U1''), (''condition'', JStr ''prototype''),
      (''task_id'', JStr ''Task1''), (''utc_timestamp'', JStr time_text),
      (''state_id'', JStr state)]"


definition scenario_A :: "pydict list" where
  "scenario_A =
     [sample_event ''1970-01-01T00:00:00'' ''task_initialized'',
      sample_event ''1970-01-01T00:00:00'' ''km_pull_activity'',
      sample_event ''1970-01-01T00:00:30'' ''task_execution'',
      sample_event ''1970-01-01T00:01:30'' ''task_conclusion'']"

text \<open>Readings of \<^verbatim>\<open>float\<close> and \<^verbatim>\<open>int\<close> on the two literals of the sample table.\<close>

definition sample_float :: "string \<Rightarrow> real option" where
  "sample_float s = (if s = ''2.5'' then Some 2.5 else None)"

definition sample_int :: "string \<Rightarrow> int option" where
  "sample_int s = (if s = ''7'' then Some 7 else None)"

definition jsonl_entry :: "string \<Rightarrow> pydict list \<Rightarrow> dir_entry" where
  "jsonl_entry name file_lines = \<lparr>entry_name = name, entry_lines = file_lines, entry_rows = []\<rparr>"

section \<open>Properties of the transition state machine\<close>

lemma in_valid_state_transitions:
  "(s1, s2) \<in> set valid_state_transitions \<longleftrightarrow>
     s1 = ''task_initialized'' \<and>
       s2 \<in> {''task_execution'', ''km_pull_activity'', ''km_push_activity'', ''task_conclusion''} \<or>
     s1 = ''task_execution'' \<and>
       s2 \<in> {''task_execution'', ''km_push_activity'', ''km_pull_activity'', ''task_conclusion''} \<or>
     s1 = ''km_push_activity'' \<and>
       s2 \<in> {''task_execution'', ''km_pull_activity'', ''task_conclusion''} \<or>
     s1 = ''km_pull_activity'' \<and>
       s2 \<in> {''km_push_activity'', ''task_execution'', ''task_conclusion''}"
  unfolding valid_state_transitions_def by auto

text \<open>
  Claim C4. The transition check on two state ids succeeds exactly on the fourteen edges
  listed, and raises the invalid-transition error on every other pair; the only self-loop
  it accepts is the one on \<^verbatim>\<open>task_execution\<close>, and the pair
  \<^verbatim>\<open>km_pull_activity\<close>, \<^verbatim>\<open>km_pull_activity\<close> raises.
\<close>

theorem transition_check_is_edge_set:
  "verify_state_transition_valid s1 s2 l1 l2 =
     (if s1 = ''task_initialized'' \<and>
           s2 \<in> {''task_execution'', ''km_pull_activity'', ''km_push_activity'', ''task_conclusion''} \<or>
         s1 = ''task_execution'' \<and>
           s2 \<in> {''task_execution'', ''km_push_activity'', ''km_pull_activity'', ''task_conclusion''} \<or>
         s1 = ''km_push_activity'' \<and>
           s2 \<in> {''task_execution'', ''km_pull_activity'', ''task_conclusion''} \<or>
         s1 = ''km_pull_activity'' \<and>
           s2 \<in> {''km_push_activity'', ''task_execution'', ''task_conclusion''}
      then Inr () else Inl (TransitionNotValid l1 l2))
   \<and> length valid_state_transitions = 14 \<and> distinct valid_state_transitions
   \<and> ((verify_state_transition_valid s s l1 l2 = Inr ()) = (s = ''task_execution''))
   \<and> verify_state_transition_valid ''km_pull_activity'' ''km_pull_activity'' l1 l2
        = Inl (TransitionNotValid l1 l2)"
proof -
  have a: "length valid_state_transitions = 14 \<and> distinct valid_state_transitions"
    unfolding valid_state_transitions_def by simp
  have b: "(verify_state_transition_valid s s l1 l2 = Inr ()) = (s = ''task_execution'')"
    unfolding verify_state_transition_valid_def in_valid_state_transitions by auto
  have c: "verify_state_transition_valid ''km_pull_activity'' ''km_pull_activity'' l1 l2
        = Inl (TransitionNotValid l1 l2)"
    unfolding verify_state_transition_valid_def in_valid_state_transitions by simp
  show ?thesis
    using a b c unfolding verify_state_transition_valid_def in_valid_state_transitions
    by simp
qed

section \<open>The stream reducer\<close>

lemma bind_err_Inr [simp]: "bind_err (Inr x) f = f x"
  by (simp add: bind_err_def)

lemma bind_err_Inl [simp]: "bind_err (Inl e) f = Inl e"
  by (simp add: bind_err_def)

lemma bind_err_eq_Inr:
  "bind_err m f = Inr y \<longleftrightarrow> (\<exists>x. m = Inr x \<and> f x = Inr y)"
  by (cases m) simp_all

lemma get_datetime_Inr: "get_datetime d k = Inr t \<longleftrightarrow> dict_get d k = Some (JDatetime t)"
  unfolding get_datetime_def by (simp split: option.split json.split)

lemma get_str_Inr: "get_str d k = Inr s \<longleftrightarrow> dict_get d k = Some (JStr s)"
  unfolding get_str_def by (simp split: option.split json.split)

lemma check_line_fields:
  assumes "check_line fi n l = Inr (j, k, t, s)"
  shows "dict_get j ''state_id'' = Some (JStr s) \<and>
         dict_get j ''utc_timestamp'' = Some (JDatetime t) \<and>
         session_identifier j = Inr k"
  using assms unfolding check_line_def
  by (simp add: bind_err_eq_Inr Let_def get_datetime_Inr get_str_Inr) blast

lemma session_identifier_fields:
  assumes "session_identifier j = Inr k"
  shows "\<exists>a b c. dict_get j ''subject_id'' = Some a \<and> dict_get j ''condition'' = Some b
           \<and> dict_get j ''task_id'' = Some c"
  using assms unfolding session_identifier_def by (auto split: option.splits)



lemma dict_get_set_same [simp]: "dict_get (dict_set d k v) k = Some v"
  by (simp add: dict_get_def dict_set_def update_conv')

lemma dict_get_set_other [simp]: "k' \<noteq> k \<Longrightarrow> dict_get (dict_set d k v) k' = dict_get d k'"
  by (simp add: dict_get_def dict_set_def update_conv')

lemma dict_set_set [simp]: "dict_set (dict_set d k v) k w = dict_set d k w"
  by (simp add: dict_set_def)

lemma state_id_is_eq:
  "dict_get j ''state_id'' = Some (JStr s) \<Longrightarrow> state_id_is j s' = Inr (s = s')"
  by (simp add: state_id_is_def)

lemma reduce_line_known:
  assumes "dict_get sts k = Some p" and "dict_get recs k = Some r"
  shows "reduce_line n (sts, recs) (j, k, t, s) =
     (if prev_utc_timestamp p \<ge> t \<and> prev_state_id p \<noteq> ''task_initialized''
      then Inl (TimestampBefore n (prev_line_no p))
      else if (prev_state_id p, s) \<notin> set valid_state_transitions
      then Inl (TransitionNotValid (prev_line_no p) n)
      else Inr (dict_set sts k \<lparr>prev_utc_timestamp = t, prev_state_id = s, prev_line_no = n\<rparr>,
                dict_set recs k (advance p r t j)))"
  using assms
  by (simp add: reduce_line_def verify_timestamps_inorder_def initial_state_id_def
      verify_state_transition_valid_def advance_def Let_def)

lemma reduce_line_new:
  assumes "dict_get sts k = None" and "dict_get j ''state_id'' = Some (JStr s)"
    and "dict_get j ''subject_id'' = Some a" and "dict_get j ''condition'' = Some b"
    and "dict_get j ''task_id'' = Some c"
  shows "reduce_line n (sts, recs) (j, k, t, s) =
     (if s \<noteq> ''task_initialized'' then Inl (FirstStateNotInitialized k n)
      else Inr (dict_set sts k \<lparr>prev_utc_timestamp = t, prev_state_id = s, prev_line_no = n\<rparr>,
                dict_set recs k
                  \<lparr>subject_id = a, condition = b, task_id = c, task_start_time = t,
                   task_total_time = 0, km_pull_total_time = 0, km_push_total_time = 0,
                   state_transitions = [j]\<rparr>))"
  using assms
  by (simp add: reduce_line_def new_record_def verify_first_state_is_task_initialized_def
      state_id_is_eq Let_def)





lemma checked_lines_fields:
  "checked_lines fi n ls = Inr evs \<Longrightarrow> ev \<in> set evs \<Longrightarrow>
     dict_get (fst ev) ''state_id'' = Some (JStr (snd (snd (snd ev))))
     \<and> session_identifier (fst ev) = Inr (fst (snd ev))"
proof (induction ls arbitrary: n evs)
  case Nil
  then show ?case by simp
next
  case (Cons l ls)
  from Cons.prems(1) obtain e es where
    e: "check_line fi n l = Inr e" and
    es: "checked_lines fi (n + 1) ls = Inr es" and
    evs: "evs = e # es"
    by (auto simp: bind_err_eq_Inr)
  show ?case
  proof (cases "ev = e")
    case True
    obtain j k t s where "e = (j, k, t, s)" by (cases e) auto
    with e True check_line_fields [of fi n l j k t s] show ?thesis by simp
  next
    case False
    with Cons.prems(2) evs have "ev \<in> set es" by simp
    from Cons.IH [OF es this] show ?thesis .
  qed
qed



section \<open>Invariants of the loader's loop\<close>

lemma agrees_update:
  "list_all2 session_tail_agrees sts recs \<Longrightarrow> session_tail_agrees (k, p) (k, r) \<Longrightarrow>
     list_all2 session_tail_agrees (dict_set sts k p) (dict_set recs k r)"
proof (induction sts recs rule: list_all2_induct)
  case Nil
  then show ?case by (simp add: dict_set_def)
next
  case (Cons x xs y ys)
  then show ?case
    by (cases x; cases y) (auto simp: dict_set_def session_tail_agrees_def)
qed

lemma agrees_lookup:
  "list_all2 session_tail_agrees sts recs \<Longrightarrow> dict_get sts k = Some p \<Longrightarrow>
     \<exists>r. dict_get recs k = Some r"
proof (induction sts recs rule: list_all2_induct)
  case Nil
  then show ?case by (simp add: dict_get_def)
next
  case (Cons x xs y ys)
  then show ?case
    by (cases x; cases y) (auto simp: dict_get_def session_tail_agrees_def split: if_splits)
qed

lemma distinct_dict_set: "distinct (map fst d) \<Longrightarrow> distinct (map fst (dict_set d k v))"
  by (simp add: dict_set_def distinct_update)

lemma reduce_line_invariant:
  assumes inv: "loader_invariant st" and ev: "checked_event ev"
    and step: "reduce_line n st ev = Inr st'"
  shows "loader_invariant st'
     \<and> fst st' = dict_set (fst st) (fst (snd ev))
         \<lparr>prev_utc_timestamp = fst (snd (snd ev)), prev_state_id = snd (snd (snd ev)),
          prev_line_no = n\<rparr>"
proof -
  obtain sts recs where st: "st = (sts, recs)" by (cases st) auto
  obtain j k t s where e: "ev = (j, k, t, s)" by (cases ev) auto
  from ev e have sid: "dict_get j ''state_id'' = Some (JStr s)"
    and ident: "session_identifier j = Inr k"
    by (simp_all add: checked_event_def)
  from inv st have agree: "list_all2 session_tail_agrees sts recs"
    and dist: "distinct (map fst sts)"
    by (simp_all add: loader_invariant_def)
  let ?p = "\<lparr>prev_utc_timestamp = t, prev_state_id = s, prev_line_no = n\<rparr>"
  show ?thesis
  proof (cases "dict_get sts k")
    case None
    from session_identifier_fields [OF ident] obtain a b c where
      abc: "dict_get j ''subject_id'' = Some a" "dict_get j ''condition'' = Some b"
           "dict_get j ''task_id'' = Some c"
      by blast
    let ?r = "\<lparr>subject_id = a, condition = b, task_id = c, task_start_time = t,
               task_total_time = 0, km_pull_total_time = 0, km_push_total_time = 0,
               state_transitions = [j]\<rparr>"
    from step reduce_line_new [OF None sid abc, of n recs t]
    have st': "st' = (dict_set sts k ?p, dict_set recs k ?r)"
      unfolding st e by (simp split: if_splits)
    have "session_tail_agrees (k, ?p) (k, ?r)"
      using sid by (simp add: session_tail_agrees_def)
    from agrees_update [OF agree this] distinct_dict_set [OF dist] st' st e
    show ?thesis by (simp add: loader_invariant_def)
  next
    case (Some p)
    from agrees_lookup [OF agree Some] obtain r where r: "dict_get recs k = Some r" by blast
    let ?r = "advance p r t j"
    from step reduce_line_known [OF Some r, of n j t s]
    have st': "st' = (dict_set sts k ?p, dict_set recs k ?r)"
      unfolding st e by (simp split: if_splits)
    have "session_tail_agrees (k, ?p) (k, ?r)"
      using sid by (simp add: session_tail_agrees_def advance_def)
    from agrees_update [OF agree this] distinct_dict_set [OF dist] st' st e
    show ?thesis by (simp add: loader_invariant_def)
  qed
qed

lemma last_seen_other:
  "\<forall>ev\<in>set evs. fst (snd ev) \<noteq> k \<Longrightarrow> last_seen k n evs seen = seen"
  by (induction evs arbitrary: n seen) auto

lemma reduce_lines_invariant:
  assumes "loader_invariant st" and "\<forall>ev\<in>set evs. checked_event ev"
    and "reduce_lines n st evs = Inr st'"
  shows "loader_invariant st'
     \<and> (\<forall>k. dict_get (fst st') k = last_seen k n evs (dict_get (fst st) k))
     \<and> fst ` set (fst st') = fst ` set (fst st) \<union> (\<lambda>ev. fst (snd ev)) ` set evs"
  using assms
proof (induction evs arbitrary: n st)
  case Nil
  then show ?case by simp
next
  case (Cons ev evs)
  from Cons.prems(3) obtain st1 where
    one: "reduce_line n st ev = Inr st1" and
    more: "reduce_lines (n + 1) st1 evs = Inr st'"
    by (auto simp: bind_err_eq_Inr)
  from Cons.prems(2) have ev: "checked_event ev" and evs: "\<forall>ev\<in>set evs. checked_event ev"
    by simp_all
  from reduce_line_invariant [OF Cons.prems(1) ev one]
  have inv1: "loader_invariant st1" and
    sts1: "fst st1 = dict_set (fst st) (fst (snd ev))
         \<lparr>prev_utc_timestamp = fst (snd (snd ev)), prev_state_id = snd (snd (snd ev)),
          prev_line_no = n\<rparr>"
    by simp_all
  from Cons.IH [OF inv1 evs more]
  have inv': "loader_invariant st'"
    and seen: "\<forall>k. dict_get (fst st') k = last_seen k (n + 1) evs (dict_get (fst st1) k)"
    and keys: "fst ` set (fst st') = fst ` set (fst st1) \<union> (\<lambda>ev. fst (snd ev)) ` set evs"
    by simp_all
  have "\<forall>k. dict_get (fst st') k = last_seen k n (ev # evs) (dict_get (fst st) k)"
    using seen sts1 by (auto simp: dict_get_def dict_set_def update_conv')
  moreover have "fst ` set (fst st') = fst ` set (fst st) \<union> (\<lambda>ev. fst (snd ev)) ` set (ev # evs)"
    using keys sts1 by (auto simp: dict_set_def dom_update)
  ultimately show ?case using inv' by blast
qed


lemma last_states_find:
  assumes "list_all2 session_tail_agrees sts recs"
    and "\<forall>kp\<in>set sts. dict_get full (fst kp) = Some (snd kp)"
  shows "last_states full recs =
     (case find (\<lambda>kp. prev_state_id (snd kp) \<noteq> ''task_conclusion'') sts of
        None \<Rightarrow> Inr ()
      | Some kp \<Rightarrow> Inl (LastStateNotConclusion (fst kp) (prev_line_no (snd kp))))"
  using assms
proof (induction sts recs rule: list_all2_induct)
  case Nil
  then show ?case by simp
next
  case (Cons x xs y ys)
  obtain k p where x: "x = (k, p)" by (cases x) auto
  obtain k' r where y: "y = (k', r)" by (cases y) auto
  from Cons.hyps(1) x y have k': "k' = k" and ne: "state_transitions r \<noteq> []"
    and sid: "dict_get (last (state_transitions r)) ''state_id'' = Some (JStr (prev_state_id p))"
    by (simp_all add: session_tail_agrees_def)
  from Cons.prems x have look: "dict_get full k = Some p"
    and rest: "\<forall>kp\<in>set xs. dict_get full (fst kp) = Some (snd kp)"
    by simp_all
  have "verify_last_state_is_task_conclusion (state_transitions r) k (prev_line_no p) =
      (if prev_state_id p \<noteq> ''task_conclusion''
       then Inl (LastStateNotConclusion k (prev_line_no p)) else Inr ())"
    using ne sid by (simp add: verify_last_state_is_task_conclusion_def state_id_is_eq)
  then show ?case
    using look Cons.IH [OF rest] by (simp add: x y k')
qed

lemma last_states_invariant:
  assumes "loader_invariant st"
  shows "last_states (fst st) (snd st) =
     (case find (\<lambda>kp. prev_state_id (snd kp) \<noteq> ''task_conclusion'') (fst st) of
        None \<Rightarrow> Inr ()
      | Some kp \<Rightarrow> Inl (LastStateNotConclusion (fst kp) (prev_line_no (snd kp))))"
proof -
  from assms have a: "list_all2 session_tail_agrees (fst st) (snd st)"
    and d: "distinct (map fst (fst st))"
    by (simp_all add: loader_invariant_def)
  from d have "\<forall>kp\<in>set (fst st). dict_get (fst st) (fst kp) = Some (snd kp)"
    by (auto simp: dict_get_def)
  from last_states_find [OF a this] show ?thesis .
qed

lemma read_lines_Inr:
  "read_lines fi n st ls = Inr st' \<Longrightarrow>
     \<exists>evs. checked_lines fi n ls = Inr evs \<and> reduce_lines n st evs = Inr st'"
proof (induction ls arbitrary: n st)
  case Nil
  then show ?case by simp
next
  case (Cons l ls)
  from Cons.prems obtain ev st1 where
    ev: "check_line fi n l = Inr ev" and
    one: "reduce_line n st ev = Inr st1" and
    more: "read_lines fi (n + 1) st1 ls = Inr st'"
    by (auto simp: bind_err_eq_Inr)
  from Cons.IH [OF more] obtain evs where
    "checked_lines fi (n + 1) ls = Inr evs" "reduce_lines (n + 1) st1 evs = Inr st'"
    by blast
  with ev one show ?case by simp
qed

lemma read_lines_append:
  "read_lines fi n st (xs @ ys) =
     bind_err (read_lines fi n st xs) (\<lambda>st'. read_lines fi (n + length xs) st' ys)"
proof (induction xs arbitrary: n st)
  case Nil
  then show ?case by simp
next
  case (Cons x xs)
  show ?case
  proof (cases "check_line fi n x")
    case (Inl e)
    then show ?thesis by simp
  next
    case (Inr ev)
    show ?thesis
    proof (cases "reduce_line n st ev")
      case (Inl e)
      then show ?thesis using Inr by simp
    next
      case (Inr st1)
      then show ?thesis using \<open>check_line fi n x = Inr ev\<close> Cons.IH [of "n + 1" st1] by simp
    qed
  qed
qed

lemma checked_lines_all:
  "checked_lines fi n ls = Inr evs \<Longrightarrow> \<forall>ev\<in>set evs. checked_event ev"
  using checked_lines_fields [of fi n ls evs] by (simp add: checked_event_def)

lemma first_state_error:
  assumes "check_line fi n l = Inr (j, k, t, s)" and "dict_get (fst st) k = None"
    and "s \<noteq> ''task_initialized''"
  shows "read_lines fi n st (l # post) = Inl (FirstStateNotInitialized k n)"
proof -
  from check_line_fields [OF assms(1)] have
    sid: "dict_get j ''state_id'' = Some (JStr s)" and ident: "session_identifier j = Inr k"
    by simp_all
  from session_identifier_fields [OF ident] obtain a b c where
    abc: "dict_get j ''subject_id'' = Some a" "dict_get j ''condition'' = Some b"
         "dict_get j ''task_id'' = Some c"
    by blast
  obtain sts recs where st: "st = (sts, recs)" by (cases st) auto
  with assms(2) have none: "dict_get sts k = None" by simp
  from reduce_line_new [OF none sid abc, of n recs t] assms(3)
  have "reduce_line n st (j, k, t, s) = Inl (FirstStateNotInitialized k n)"
    by (simp add: st)
  with assms(1) show ?thesis by simp
qed

lemma empty_invariant: "loader_invariant ([], [])"
  by (simp add: loader_invariant_def)

lemma final_check:
  assumes "read_lines fi 1 ([], []) file_lines = Inr st"
  shows "\<exists>evs. checked_lines fi 1 file_lines = Inr evs \<and>
     (if list_all (\<lambda>ev. map_option prev_state_id (last_seen (fst (snd ev)) 1 evs None)
                          = Some ''task_conclusion'') evs
      then load_state_transitions_records fi file_lines = Inr (snd st)
      else \<exists>k p. last_seen k 1 evs None = Some p \<and> prev_state_id p \<noteq> ''task_conclusion'' \<and>
             load_state_transitions_records fi file_lines
               = Inl (LastStateNotConclusion k (prev_line_no p)))"
proof -
  from read_lines_Inr [OF assms] obtain evs where
    checked: "checked_lines fi 1 file_lines = Inr evs" and
    run: "reduce_lines 1 ([], []) evs = Inr st"
    by blast
  from reduce_lines_invariant [OF empty_invariant checked_lines_all [OF checked] run]
  have inv: "loader_invariant st"
    and seen: "\<And>k. dict_get (fst st) k = last_seen k 1 evs None"
    and keys: "fst ` set (fst st) = (\<lambda>ev. fst (snd ev)) ` set evs"
    by (simp_all add: dict_get_def)
  from inv have dist: "distinct (map fst (fst st))" by (simp add: loader_invariant_def)
  have member: "dict_get (fst st) (fst kp) = Some (snd kp)" if "kp \<in> set (fst st)" for kp
    using that dist by (auto simp: dict_get_def)
  let ?bad = "\<lambda>kp. prev_state_id (snd kp) \<noteq> ''task_conclusion''"
  have load: "load_state_transitions_records fi file_lines =
      (case find ?bad (fst st) of
         None \<Rightarrow> Inr (snd st)
       | Some kp \<Rightarrow> Inl (LastStateNotConclusion (fst kp) (prev_line_no (snd kp))))"
    unfolding load_state_transitions_records_def
    using assms last_states_invariant [OF inv] by (simp split: option.split)
  show ?thesis
  proof (cases "list_all (\<lambda>ev. map_option prev_state_id (last_seen (fst (snd ev)) 1 evs None)
                          = Some ''task_conclusion'') evs")
    case True
    have "\<not> ?bad kp" if kp: "kp \<in> set (fst st)" for kp
    proof -
      from kp keys obtain ev where ev: "ev \<in> set evs" "fst (snd ev) = fst kp"
        by (metis (no_types, lifting) image_iff)
      with True have "map_option prev_state_id (last_seen (fst kp) 1 evs None)
          = Some ''task_conclusion''"
        by (auto simp: list_all_iff)
      with member [OF kp] seen [of "fst kp"] show ?thesis by simp
    qed
    then have "find ?bad (fst st) = None" by (force simp: find_None_iff)
    with load checked True show ?thesis by simp
  next
    case False
    then obtain ev where ev: "ev \<in> set evs"
      and bad: "map_option prev_state_id (last_seen (fst (snd ev)) 1 evs None)
                 \<noteq> Some ''task_conclusion''"
      by (auto simp: list_all_iff)
    from ev keys obtain kp where kp: "kp \<in> set (fst st)" "fst kp = fst (snd ev)"
      by (metis (no_types, lifting) image_iff)
    from member [OF kp(1)] seen [of "fst kp"] bad kp(2) have "?bad kp" by auto
    with kp(1) have "find ?bad (fst st) \<noteq> None"
      unfolding find_None_iff by blast
    then obtain kq where found: "find ?bad (fst st) = Some kq"
      by auto
    then have kq: "kq \<in> set (fst st)" "?bad kq"
      by (auto simp: find_Some_iff)
    from member [OF kq(1)] seen [of "fst kq"]
    have "last_seen (fst kq) 1 evs None = Some (snd kq)" by simp
    with kq(2) load found have "\<exists>k p. last_seen k 1 evs None = Some p \<and>
        prev_state_id p \<noteq> ''task_conclusion'' \<and>
        load_state_transitions_records fi file_lines
          = Inl (LastStateNotConclusion k (prev_line_no p))"
      by auto
    with checked False show ?thesis by simp
  qed
qed

section \<open>Boundary states\<close>

text \<open>
  Claim C5. When the lines before it are accepted and a line is the first of its session,
  a state other than \<^verbatim>\<open>task_initialized\<close> makes the load fail at that line with the
  initial-state error. When every line is accepted by the loop, the load succeeds if the
  event last seen for every session is a \<^verbatim>\<open>task_conclusion\<close>, and fails otherwise with
  the final-state error for a session whose last event is not, at that event's line. A
  file of one \<^verbatim>\<open>task_initialized\<close> line fails with the final-state error.
\<close>

theorem boundary_states:
  "(read_lines fi 1 ([], []) pre = Inr st \<and> check_line fi (length pre + 1) l = Inr (j, k, t, s)
      \<and> dict_get (fst st) k = None \<and> s \<noteq> ''task_initialized''
     \<longrightarrow> load_state_transitions_file fi (pre @ l # post)
           = Inl (FirstStateNotInitialized k (length pre + 1)))
   \<and> (read_lines fi 1 ([], []) file_lines = Inr st' \<longrightarrow>
        (\<exists>evs. checked_lines fi 1 file_lines = Inr evs \<and>
          (if list_all (\<lambda>ev. map_option prev_state_id (last_seen (fst (snd ev)) 1 evs None)
                               = Some ''task_conclusion'') evs
           then load_state_transitions_records fi file_lines = Inr (snd st')
           else \<exists>k p. last_seen k 1 evs None = Some p \<and> prev_state_id p \<noteq> ''task_conclusion'' \<and>
                  load_state_transitions_records fi file_lines
                    = Inl (LastStateNotConclusion k (prev_line_no p)))))
   \<and> (check_line fi 1 l1 = Inr (j1, k1, t1, ''task_initialized'')
        \<longrightarrow> load_state_transitions_file fi [l1] = Inl (LastStateNotConclusion k1 1))"
proof (intro conjI impI)
  assume a: "read_lines fi 1 ([], []) pre = Inr st \<and>
     check_line fi (length pre + 1) l = Inr (j, k, t, s) \<and>
     dict_get (fst st) k = None \<and> s \<noteq> ''task_initialized''"
  then have "read_lines fi (1 + length pre) st (l # post)
      = Inl (FirstStateNotInitialized k (1 + length pre))"
    using first_state_error [of fi "1 + length pre" l j k t s st post] by simp
  with a have "read_lines fi 1 ([], []) (pre @ l # post)
      = Inl (FirstStateNotInitialized k (length pre + 1))"
    by (simp add: read_lines_append)
  then show "load_state_transitions_file fi (pre @ l # post)
      = Inl (FirstStateNotInitialized k (length pre + 1))"
    by (simp add: load_state_transitions_file_def load_state_transitions_records_def)
next
  assume "read_lines fi 1 ([], []) file_lines = Inr st'"
  from final_check [OF this]
  show "\<exists>evs. checked_lines fi 1 file_lines = Inr evs \<and>
          (if list_all (\<lambda>ev. map_option prev_state_id (last_seen (fst (snd ev)) 1 evs None)
                               = Some ''task_conclusion'') evs
           then load_state_transitions_records fi file_lines = Inr (snd st')
           else \<exists>k p. last_seen k 1 evs None = Some p \<and> prev_state_id p \<noteq> ''task_conclusion'' \<and>
                  load_state_transitions_records fi file_lines
                    = Inl (LastStateNotConclusion k (prev_line_no p)))" .
next
  assume c: "check_line fi 1 l1 = Inr (j1, k1, t1, ''task_initialized'')"
  from check_line_fields [OF c] have
    sid: "dict_get j1 ''state_id'' = Some (JStr ''task_initialized'')"
    and ident: "session_identifier j1 = Inr k1"
    by simp_all
  from session_identifier_fields [OF ident] obtain a b c' where
    abc: "dict_get j1 ''subject_id'' = Some a" "dict_get j1 ''condition'' = Some b"
         "dict_get j1 ''task_id'' = Some c'"
    by blast
  have none: "dict_get ([] :: (string \<times> previous_state) list) k1 = None"
    by (simp add: dict_get_def)
  from reduce_line_new [OF none sid abc, of 1 "[]" t1] c
  have "read_lines fi 1 ([], []) [l1] =
      Inr ([(k1, \<lparr>prev_utc_timestamp = t1, prev_state_id = ''task_initialized'', prev_line_no = 1\<rparr>)],
           [(k1, \<lparr>subject_id = a, condition = b, task_id = c', task_start_time = t1,
                  task_total_time = 0, km_pull_total_time = 0, km_push_total_time = 0,
                  state_transitions = [j1]\<rparr>)])"
    by (simp add: dict_set_def)
  then show "load_state_transitions_file fi [l1] = Inl (LastStateNotConclusion k1 1)"
    using sid
    by (simp add: load_state_transitions_file_def load_state_transitions_records_def
        dict_get_def verify_last_state_is_task_conclusion_def state_id_is_def)
qed


theorem boundary_states_witness:
  "load_state_transitions_file sample_clock
       [sample_event ''1970-01-01T00:00:00'' ''task_execution'']
     = Inl (FirstStateNotInitialized ''U1_prototype_Task1'' 1)
   \<and> load_state_transitions_file sample_clock
       [sample_event ''1970-01-01T00:00:00'' ''task_initialized'']
     = Inl (LastStateNotConclusion ''U1_prototype_Task1'' 1)
   \<and> (\<exists>recs. load_state_transitions_records sample_clock scenario_A = Inr recs)"
proof -
  let ?line = "\<lambda>t s. [(''subject_id'', JStr ''U1''), (''condition'', JStr ''prototype''),
      (''task_id'', JStr ''Task1''), (''utc_timestamp'', JDatetime t), (''state_id'', JStr s)]"
  let ?key = "''U1_prototype_Task1''"
  let ?exec = "sample_event ''1970-01-01T00:00:00'' ''task_execution''"
  let ?init = "sample_event ''1970-01-01T00:00:00'' ''task_initialized''"
  have c1: "check_line sample_clock (length ([] :: pydict list) + 1) ?exec
      = Inr (?line 0 ''task_execution'', ?key, 0, ''task_execution'')"
    by code_simp
  have r0: "read_lines sample_clock 1 ([], []) [] = Inr ([], [])"
    by simp
  have n0: "dict_get (fst (([], []) :: loader_state)) ?key = None"
    by (simp add: dict_get_def)
  have s0: "''task_execution'' \<noteq> ''task_initialized''"
    by simp
  from boundary_states [where fi = sample_clock and pre = "[]" and st = "([], [])"
      and l = ?exec and j = "?line 0 ''task_execution''" and k = ?key and t = 0
      and s = "''task_execution''" and post = "[]", THEN conjunct1, THEN mp] c1 r0 n0 s0
  have first: "load_state_transitions_file sample_clock [?exec]
      = Inl (FirstStateNotInitialized ?key 1)"
    by simp
  have c3: "check_line sample_clock 1 ?init
      = Inr (?line 0 ''task_initialized'', ?key, 0, ''task_initialized'')"
    by code_simp
  from boundary_states [where fi = sample_clock and ?l1.0 = ?init
      and ?j1.0 = "?line 0 ''task_initialized''" and ?k1.0 = ?key and ?t1.0 = 0,
      THEN conjunct2, THEN conjunct2, THEN mp, OF c3]
  have single: "load_state_transitions_file sample_clock [?init]
      = Inl (LastStateNotConclusion ?key 1)" .
  have "\<not> isl (read_lines sample_clock 1 ([], []) scenario_A)"
    by code_simp
  then obtain st where st: "read_lines sample_clock 1 ([], []) scenario_A = Inr st"
    by (cases "read_lines sample_clock 1 ([], []) scenario_A") auto
  have evs: "checked_lines sample_clock 1 scenario_A =
      Inr [(?line 0 ''task_initialized'', ?key, 0, ''task_initialized''),
           (?line 0 ''km_pull_activity'', ?key, 0, ''km_pull_activity''),
           (?line 30000000 ''task_execution'', ?key, 30000000, ''task_execution''),
           (?line 90000000 ''task_conclusion'', ?key, 90000000, ''task_conclusion'')]"
    by code_simp
  from boundary_states [where fi = sample_clock and file_lines = scenario_A and st' = st,
      THEN conjunct2, THEN conjunct1, THEN mp, OF st]
  have "load_state_transitions_records sample_clock scenario_A = Inr (snd st)"
    unfolding evs by simp
  with first single show ?thesis by blast
qed

section \<open>Timestamp ordering\<close>

lemma timestamps_inorder_iff:
  "verify_timestamps_inorder t1 t2 l1 l2 s = Inr () \<longleftrightarrow> t1 < t2 \<or> s = ''task_initialized''"
  unfolding verify_timestamps_inorder_def initial_state_id_def by auto

text \<open>
  Claim C2. The ordering check is meant to succeed exactly when the second timestamp is
  later than the first, or not earlier and the first event is \<^verbatim>\<open>task_initialized\<close>. The
  check of the source succeeds on every pair whose first event is \<^verbatim>\<open>task_initialized\<close>:
  here the second timestamp is thirty seconds before the first, the ordering is not
  legal, and the check raises nothing.
\<close>

theorem timestamps_backwards_after_initialized:
  "verify_timestamps_inorder 30000000 0 1 2 ''task_initialized'' = Inr ()
   \<and> \<not> is_legal_ordering 30000000 0 ''task_initialized''"
  by (simp add: verify_timestamps_inorder_def initial_state_id_def is_legal_ordering_def)

text \<open>
  Claim C3. The totals of a returned record are meant to be non-negative. The file of
  two lines below, a \<^verbatim>\<open>task_initialized\<close> at 30 seconds followed by a
  \<^verbatim>\<open>task_conclusion\<close> at 0 seconds, is accepted and its record has a
  \<^verbatim>\<open>task_total_time\<close> of minus thirty seconds.
\<close>

theorem negative_task_total_time:
  "load_state_transitions_file sample_clock
     [sample_event ''1970-01-01T00:00:30'' ''task_initialized'',
      sample_event ''1970-01-01T00:00:00'' ''task_conclusion'']
   = Inr [(''U1_prototype_Task1'',
       [(''subject_id'', JStr ''U1''), (''condition'', JStr ''prototype''),
        (''task_id'', JStr ''Task1''), (''task_start_time'', JDatetime 30000000),
        (''task_total_time'', JFloat (- 30)),
        (''km_pull_total_time'', JFloat 0),
        (''km_push_total_time'', JFloat 0),
        (''state_transitions'',
         JList
          [JDict
            [(''subject_id'', JStr ''U1''),
             (''condition'', JStr ''prototype''), (''task_id'', JStr ''Task1''),
             (''utc_timestamp'', JDatetime 30000000),
             (''state_id'', JStr ''task_initialized'')],
           JDict
            [(''subject_id'', JStr ''U1''),
             (''condition'', JStr ''prototype''), (''task_id'', JStr ''Task1''),
             (''utc_timestamp'', JDatetime 0),
             (''state_id'', JStr ''task_conclusion'')]])])]"
  by code_simp

section \<open>Task metadata\<close>

lemma remove_optional_keeps:
  "x \<in> set xs \<Longrightarrow> x \<notin> set optional_column_names \<Longrightarrow> x \<in> set (remove_optional i xs)"
proof (induction i xs rule: remove_optional.induct)
  case (1 i extra_columns)
  show ?case
  proof (cases "i < length extra_columns")
    case False
    then show ?thesis using "1.prems" by (subst remove_optional.simps) simp
  next
    case True
    show ?thesis
    proof (cases "extra_columns ! i \<in> set optional_column_names")
      case opt: True
      with "1.prems" have "x \<noteq> extra_columns ! i" by auto
      with "1.prems" have "x \<in> set (remove1 (extra_columns ! i) extra_columns)"
        by simp
      from "1.IH"(1) [OF True opt this "1.prems"(2)] True opt
      show ?thesis by (subst remove_optional.simps) simp
    next
      case other: False
      from "1.IH"(2) [OF True other "1.prems"] True other
      show ?thesis by (subst remove_optional.simps) simp
    qed
  qed
qed

lemma remove_optional_single:
  "remove_optional 0 [''task_passing_score''] = []"
  by (subst remove_optional.simps, simp add: optional_column_names_def)
     (subst remove_optional.simps, simp)

lemma distinct_within_single:
  "distinct xs \<Longrightarrow> set xs \<subseteq> {a} \<Longrightarrow> xs = [] \<or> xs = [a]"
  by (cases xs; cases "tl xs") auto

lemma remove_optional_empty_iff:
  assumes "distinct xs"
  shows "remove_optional 0 xs = [] \<longleftrightarrow> set xs \<subseteq> set optional_column_names"
proof
  assume empty: "remove_optional 0 xs = []"
  show "set xs \<subseteq> set optional_column_names"
  proof
    fix x assume "x \<in> set xs"
    show "x \<in> set optional_column_names"
    proof (rule ccontr)
      assume "x \<notin> set optional_column_names"
      from remove_optional_keeps [OF \<open>x \<in> set xs\<close> this, of 0] empty show False by simp
    qed
  qed
next
  assume "set xs \<subseteq> set optional_column_names"
  then have "set xs \<subseteq> {''task_passing_score''}" by (simp add: optional_column_names_def)
  from distinct_within_single [OF assms this] show "remove_optional 0 xs = []"
  proof
    assume "xs = []"
    then show ?thesis by (subst remove_optional.simps) simp
  next
    assume "xs = [''task_passing_score'']"
    then show ?thesis by (simp add: remove_optional_single)
  qed
qed

lemma verify_column_names_iff:
  assumes listing: "\<forall>xs. distinct xs \<longrightarrow> distinct (listing xs) \<and> set (listing xs) = set xs"
  shows "verify_column_names listing header = Inr () \<longleftrightarrow>
     set required_column_names \<subseteq> set header \<and>
     set header \<subseteq> set required_column_names \<union> set optional_column_names"
proof -
  let ?m = "filter (\<lambda>c. c \<notin> set header) (remdups required_column_names)"
  let ?e = "filter (\<lambda>c. c \<notin> set required_column_names) (remdups header)"
  have dm: "distinct ?m" and de: "distinct ?e" by simp_all
  from listing dm have m: "set (listing ?m) = set ?m" by blast
  from listing de have e: "distinct (listing ?e)" "set (listing ?e) = set ?e" by blast+
  have "listing ?m = [] \<longleftrightarrow> set (listing ?m) = {}" by simp
  also have "\<dots> \<longleftrightarrow> set required_column_names \<subseteq> set header" unfolding m by auto
  finally have missing: "listing ?m = [] \<longleftrightarrow> set required_column_names \<subseteq> set header" .
  have extra: "remove_optional 0 (listing ?e) = [] \<longleftrightarrow>
      set header \<subseteq> set required_column_names \<union> set optional_column_names"
    unfolding remove_optional_empty_iff [OF e(1)] e(2) by auto
  show ?thesis
    unfolding verify_column_names_def Let_def using missing extra by auto
qed


lemma verify_row_types_Inr:
  assumes "verify_row_types float_of int_of row n = Inr cells"
  shows "length cells = length row \<and> 2 < length row
     \<and> cells ! 0 = CellStr (row ! 0)
     \<and> (\<exists>x. float_of (row ! 1) = Some x \<and> cells ! 1 = CellFloat x)
     \<and> (\<exists>i. int_of (row ! 2) = Some i \<and> cells ! 2 = CellInt i)
     \<and> (if 3 < length row \<and> row ! 3 \<noteq> []
         then \<exists>p. float_of (row ! 3) = Some p \<and> cells ! 3 = CellFloat p
         else drop 3 cells = map CellStr (drop 3 row))
     \<and> drop 4 cells = map CellStr (drop 4 row)"
proof -
  from assms have len: "2 < length row"
    unfolding verify_row_types_def by (auto split: if_splits option.splits)
  from assms len obtain x i where
    x: "float_of (row ! 1) = Some x" and i: "int_of (row ! 2) = Some i"
    unfolding verify_row_types_def by (auto split: if_splits option.splits)
  let ?base = "(map CellStr row)[1 := CellFloat x, 2 := CellInt i]"
  from len have ne: "row \<noteq> []" by auto
  show ?thesis
  proof (cases "3 < length row \<and> row ! 3 \<noteq> []")
    case True
    with assms len x i obtain p where p: "float_of (row ! 3) = Some p"
      and cells: "cells = ?base[3 := CellFloat p]"
      unfolding verify_row_types_def by (auto simp: Let_def split: option.splits)
    show ?thesis using True len ne x i p unfolding cells
      by (simp add: drop_map [symmetric] del: drop_map)
  next
    case False
    with assms len x i have cells: "cells = ?base"
      unfolding verify_row_types_def by (auto simp: Let_def split: option.splits)
    show ?thesis using False len ne x i unfolding cells
      by (simp add: drop_map [symmetric] del: drop_map)
  qed
qed

lemma load_csv_one_row:
  assumes "verify_column_names listing header = Inr ()"
    and "verify_row_types float_of int_of row 2 = Inr cells"
  shows "load_csv_file listing float_of int_of [header, row] =
     bind_err (row_attributes header 0 [] cells) (\<lambda>attributes. Inr [(row ! 0, attributes)])"
proof -
  have "verify_row_types float_of int_of row (1 + 1) = Inr cells"
    using assms(2) by (simp add: numeral_2_eq_2)
  then show ?thesis
    using assms(1) unfolding load_csv_file_def
    by (cases "row_attributes header 0 [] cells") (simp_all add: dict_set_def)
qed

text \<open>
  Claim C10. Whatever order \<^verbatim>\<open>list(set(...))\<close> produces, the header check accepts a
  header exactly when it contains the three required names and nothing outside the
  required and optional names, so the order of the columns plays no part. The row
  converter works by position: cell 1 becomes a float, cell 2 an integer, cell 3 a float
  when present and not blank, every other cell stays a string; the loader then stores
  these cells under whatever names the accepted header has at their positions.
\<close>

theorem header_any_order_rows_by_position:
  assumes listing: "\<forall>xs. distinct xs \<longrightarrow> distinct (listing xs) \<and> set (listing xs) = set xs"
  shows "((verify_column_names listing header = Inr ()) =
           (set required_column_names \<subseteq> set header \<and>
            set header \<subseteq> set required_column_names \<union> set optional_column_names))
     \<and> (verify_row_types float_of int_of row n = Inr cells \<longrightarrow>
           length cells = length row \<and> 2 < length row
           \<and> cells ! 0 = CellStr (row ! 0)
           \<and> (\<exists>x. float_of (row ! 1) = Some x \<and> cells ! 1 = CellFloat x)
           \<and> (\<exists>i. int_of (row ! 2) = Some i \<and> cells ! 2 = CellInt i)
           \<and> (if 3 < length row \<and> row ! 3 \<noteq> []
               then \<exists>p. float_of (row ! 3) = Some p \<and> cells ! 3 = CellFloat p
               else drop 3 cells = map CellStr (drop 3 row))
           \<and> drop 4 cells = map CellStr (drop 4 row))
     \<and> (verify_column_names listing header = Inr () \<and>
         verify_row_types float_of int_of row 2 = Inr cells \<longrightarrow>
           load_csv_file listing float_of int_of [header, row] =
             bind_err (row_attributes header 0 [] cells)
               (\<lambda>attributes. Inr [(row ! 0, attributes)]))"
  using verify_column_names_iff [OF listing, of header]
    verify_row_types_Inr [of float_of int_of row n cells]
    load_csv_one_row [of listing header float_of int_of row cells]
  by blast

theorem header_any_order_rows_by_position_witness:
  "verify_column_names rev [''task_maximum_score'', ''task_id'', ''task_optimal_time_in_seconds'']
     = Inr ()
   \<and> load_csv_file rev sample_float sample_int
       [[''task_maximum_score'', ''task_id'', ''task_optimal_time_in_seconds''],
        [''5'', ''2.5'', ''7'']]
     = Inr [(''5'', [(''task_id'', CellFloat 2.5),
                     (''task_optimal_time_in_seconds'', CellInt 7)])]"
proof -
  let ?header = "[''task_maximum_score'', ''task_id'', ''task_optimal_time_in_seconds'']"
  let ?row = "[''5'', ''2.5'', ''7'']"
  let ?cells = "[CellStr ''5'', CellFloat 2.5, CellInt 7]"
  have listing: "\<forall>xs :: string list. distinct xs \<longrightarrow> distinct (rev xs) \<and> set (rev xs) = set xs"
    by simp
  note inst = header_any_order_rows_by_position [OF listing, of ?header sample_float sample_int ?row 2 ?cells]
  have sets: "set required_column_names \<subseteq> set ?header \<and>
      set ?header \<subseteq> set required_column_names \<union> set optional_column_names"
    by (simp add: required_column_names_def optional_column_names_def)
  with inst have header: "verify_column_names rev ?header = Inr ()"
    by blast
  have row: "verify_row_types sample_float sample_int ?row 2 = Inr ?cells"
    by (simp add: verify_row_types_def sample_float_def sample_int_def)
  from inst header row have "load_csv_file rev sample_float sample_int [?header, ?row] =
      bind_err (row_attributes ?header 0 [] ?cells) (\<lambda>attributes. Inr [(?row ! 0, attributes)])"
    by blast
  also have "\<dots> = Inr [(''5'', [(''task_id'', CellFloat 2.5),
                     (''task_optimal_time_in_seconds'', CellInt 7)])]"
    by (simp add: dict_set_def)
  finally show ?thesis using header by simp
qed

section \<open>Schema validation\<close>

lemma fields_present_find:
  "fields_present attrs d =
     (case find (\<lambda>a. \<not> dict_in a d \<and> a \<noteq> ''optional_content'') attrs of
        None \<Rightarrow> Inr ()
      | Some a \<Rightarrow> Inl (AttributeNotFound a))"
  by (induction attrs) simp_all

lemma subject_task_types_filter:
  "subject_task_types d n =
     subject_task_types (filter (\<lambda>kv. dict_in (fst kv) subject_task_schema) d) n"
proof (induction d)
  case Nil
  then show ?case by simp
next
  case (Cons kv d)
  obtain attr v where kv: "kv = (attr, v)" by (cases kv) auto
  have c: "dict_in ''condition'' subject_task_schema"
    by (simp add: dict_in_def subject_task_schema_def)
  show ?case
  proof (cases "attr = ''condition''")
    case True
    then show ?thesis using Cons.IH c kv by simp
  next
    case False
    then show ?thesis using Cons.IH kv
      by (cases "dict_get subject_task_schema attr")
         (simp_all add: dict_in_def dict_get_def split: sum.split)
  qed
qed

lemma state_transition_types_filter:
  "state_transition_types d n =
     state_transition_types (filter (\<lambda>kv. dict_in (fst kv) state_transition_schema) d) n"
proof (induction d)
  case Nil
  then show ?case by simp
next
  case (Cons kv d)
  obtain attr v where kv: "kv = (attr, v)" by (cases kv) auto
  have c: "dict_in ''condition'' state_transition_schema"
    "dict_in ''state_id'' state_transition_schema"
    by (simp_all add: dict_in_def state_transition_schema_def)
  show ?case
  proof (cases "attr = ''condition'' \<or> attr = ''state_id''")
    case True
    then show ?thesis using Cons.IH c kv by auto
  next
    case False
    then show ?thesis using Cons.IH kv
      by (cases "dict_get state_transition_schema attr")
         (simp_all add: dict_in_def dict_get_def split: sum.split)
  qed
qed

text \<open>
  Claim C9. For both shapes the presence check fails exactly when a field of the schema
  other than \<^verbatim>\<open>optional_content\<close> is absent, naming the first such field in schema
  order; all twelve other Subject-Task fields are required. The type check gives the same
  result on a mapping and on the mapping without the fields that have no declared type:
  such a field never makes it fail.
\<close>

theorem presence_and_type_checks:
  "verify_all_subject_task_fields_present d =
     (case find (\<lambda>a. \<not> dict_in a d)
        [''subject_id'', ''condition'', ''task_id'', ''task_start_time'', ''task_total_time'',
         ''km_pull_total_time'', ''km_push_total_time'', ''task_grade'',
         ''corpus_knowledge_nugget_count'', ''expert_captured_knowledge_nugget_count'',
         ''nugget_content'', ''task_timeout''] of
        None \<Rightarrow> Inr ()
      | Some a \<Rightarrow> Inl (AttributeNotFound a))
   \<and> verify_all_state_transition_fields_present d =
     (case find (\<lambda>a. \<not> dict_in a d)
        [''subject_id'', ''condition'', ''task_id'', ''utc_timestamp'', ''state_id''] of
        None \<Rightarrow> Inr ()
      | Some a \<Rightarrow> Inl (AttributeNotFound a))
   \<and> type_check_subject_task_fields d n =
       type_check_subject_task_fields
         (filter (\<lambda>kv. dict_in (fst kv) subject_task_schema) d) n
   \<and> type_check_state_transition_fields d n =
       type_check_state_transition_fields
         (filter (\<lambda>kv. dict_in (fst kv) state_transition_schema) d) n"
proof -
  have a: "verify_all_subject_task_fields_present d =
     (case find (\<lambda>a. \<not> dict_in a d)
        [''subject_id'', ''condition'', ''task_id'', ''task_start_time'', ''task_total_time'',
         ''km_pull_total_time'', ''km_push_total_time'', ''task_grade'',
         ''corpus_knowledge_nugget_count'', ''expert_captured_knowledge_nugget_count'',
         ''nugget_content'', ''task_timeout''] of
        None \<Rightarrow> Inr ()
      | Some a \<Rightarrow> Inl (AttributeNotFound a))"
    unfolding verify_all_subject_task_fields_present_def fields_present_find
      subject_task_schema_def
    by simp
  have b: "verify_all_state_transition_fields_present d =
     (case find (\<lambda>a. \<not> dict_in a d)
        [''subject_id'', ''condition'', ''task_id'', ''utc_timestamp'', ''state_id''] of
        None \<Rightarrow> Inr ()
      | Some a \<Rightarrow> Inl (AttributeNotFound a))"
    unfolding verify_all_state_transition_fields_present_def fields_present_find
      state_transition_schema_def
    by simp
  show ?thesis
    using a b subject_task_types_filter [of d n] state_transition_types_filter [of d n]
    unfolding type_check_subject_task_fields_def type_check_state_transition_fields_def
    by blast
qed

section \<open>Merging the records of two files\<close>








lemma merge_entry_new:
  "dict_get jc entry = None \<Longrightarrow>
     merge_entry filename (jc, w) (entry, incoming) =
       Inr (dict_set jc entry (dict_set incoming ''file_source'' (JStr filename)), w)"
  by (simp add: merge_entry_def)

text \<open>
  Claim C6. A record carrying \<^verbatim>\<open>state_transitions\<close> and a record not carrying it, for
  a session the mapping does not hold yet, their times within the tolerance: merged in
  either order they leave the mapping with one record for the session, no warning is
  printed, and the two resulting records are the same dictionary: the fields of the
  record without the sequence, the sequence attached, and the file of that record as
  \<^verbatim>\<open>file_source\<close>.
\<close>

theorem complementary_merge_commutes:
  assumes fresh: "dict_get jc entry = None"
    and sq: "dict_get derived ''state_transitions'' = Some sq"
    and no_sq: "dict_get supplied ''state_transitions'' = None"
    and dt: "dict_get derived ''task_total_time'' = Some dtv" "py_num dtv = Some dt"
    and dk: "dict_get derived ''km_pull_total_time'' = Some dkv" "py_num dkv = Some dk"
    and pt: "dict_get supplied ''task_total_time'' = Some ptv" "py_num ptv = Some pt"
    and pk: "dict_get supplied ''km_pull_total_time'' = Some pkv" "py_num pkv = Some pk"
    and near: "\<bar>dt - pt\<bar> \<le> 1" "\<bar>dk - pk\<bar> \<le> 1"
  shows "bind_err (merge_entry file_t (jc, w) (entry, derived))
           (\<lambda>acc. merge_entry file_p acc (entry, supplied))
         = Inr (dict_set jc entry
                  (dict_set (dict_set supplied ''state_transitions'' sq)
                     ''file_source'' (JStr file_p)), w)
     \<and> bind_err (merge_entry file_p (jc, w) (entry, supplied))
           (\<lambda>acc. merge_entry file_t acc (entry, derived))
         = Inr (dict_set jc entry
                  (dict_set (dict_set supplied ''file_source'' (JStr file_p))
                     ''state_transitions'' sq), w)
     \<and> dict_get (dict_set (dict_set supplied ''state_transitions'' sq)
                   ''file_source'' (JStr file_p))
         = dict_get (dict_set (dict_set supplied ''file_source'' (JStr file_p))
                   ''state_transitions'' sq)
     \<and> dict_get (dict_set (dict_set supplied ''state_transitions'' sq)
                   ''file_source'' (JStr file_p))
         = (dict_get supplied)(''state_transitions'' \<mapsto> sq, ''file_source'' \<mapsto> JStr file_p)"
proof -
  let ?rec_t = "dict_set derived ''file_source'' (JStr file_t)"
  let ?rec_p = "dict_set supplied ''file_source'' (JStr file_p)"
  have near': "\<bar>pt - dt\<bar> \<le> 1" "\<bar>pk - dk\<bar> \<le> 1"
    using near by simp_all
  have one: "merge_entry file_p (dict_set jc entry ?rec_t, w) (entry, supplied)
      = Inr (dict_set jc entry
               (dict_set (dict_set supplied ''state_transitions'' sq)
                  ''file_source'' (JStr file_p)), w)"
    unfolding merge_entry_def
    using sq no_sq dt dk pt pk near
    by (simp add: TIME_DIFFERENCE_THRESHOLD_def)
  have two: "merge_entry file_t (dict_set jc entry ?rec_p, w) (entry, derived)
      = Inr (dict_set jc entry (dict_set ?rec_p ''state_transitions'' sq), w)"
    unfolding merge_entry_def
    using sq no_sq dt dk pt pk near'
    by (simp add: TIME_DIFFERENCE_THRESHOLD_def)
  have same: "dict_get (dict_set (dict_set supplied ''state_transitions'' sq)
                   ''file_source'' (JStr file_p))
         = (dict_get supplied)(''state_transitions'' \<mapsto> sq, ''file_source'' \<mapsto> JStr file_p)"
    "dict_get (dict_set ?rec_p ''state_transitions'' sq)
         = (dict_get supplied)(''state_transitions'' \<mapsto> sq, ''file_source'' \<mapsto> JStr file_p)"
    by (auto simp: dict_get_def dict_set_def update_conv' fun_eq_iff)
  show ?thesis
    using one two same merge_entry_new [OF fresh] by simp
qed

theorem complementary_merge_commutes_witness:
  "bind_err (merge_entry ''a.jsonl'' ([], []) (''U1_prototype_Task1'',
        [(''task_total_time'', JFloat 90), (''km_pull_total_time'', JFloat 30),
         (''state_transitions'', JList [])]))
     (\<lambda>acc. merge_entry ''b.jsonl'' acc (''U1_prototype_Task1'',
        [(''task_total_time'', JFloat 90.4), (''km_pull_total_time'', JInt 30),
         (''task_grade'', JInt 3)]))
   = Inr ([(''U1_prototype_Task1'',
        [(''task_total_time'', JFloat 90.4), (''km_pull_total_time'', JInt 30),
         (''task_grade'', JInt 3), (''state_transitions'', JList []),
         (''file_source'', JStr ''b.jsonl'')])], [])
   \<and> bind_err (merge_entry ''b.jsonl'' ([], []) (''U1_prototype_Task1'',
        [(''task_total_time'', JFloat 90.4), (''km_pull_total_time'', JInt 30),
         (''task_grade'', JInt 3)]))
     (\<lambda>acc. merge_entry ''a.jsonl'' acc (''U1_prototype_Task1'',
        [(''task_total_time'', JFloat 90), (''km_pull_total_time'', JFloat 30),
         (''state_transitions'', JList [])]))
   = Inr ([(''U1_prototype_Task1'',
        [(''task_total_time'', JFloat 90.4), (''km_pull_total_time'', JInt 30),
         (''task_grade'', JInt 3), (''file_source'', JStr ''b.jsonl''),
         (''state_transitions'', JList [])])], [])"
proof -
  let ?derived = "[(''task_total_time'', JFloat 90), (''km_pull_total_time'', JFloat 30),
         (''state_transitions'', JList [])]"
  let ?supplied = "[(''task_total_time'', JFloat 90.4), (''km_pull_total_time'', JInt 30),
         (''task_grade'', JInt 3)]"
  have "bind_err (merge_entry ''a.jsonl'' ([], []) (''U1_prototype_Task1'', ?derived))
           (\<lambda>acc. merge_entry ''b.jsonl'' acc (''U1_prototype_Task1'', ?supplied))
         = Inr (dict_set [] ''U1_prototype_Task1''
                  (dict_set (dict_set ?supplied ''state_transitions'' (JList []))
                     ''file_source'' (JStr ''b.jsonl'')), [])
     \<and> bind_err (merge_entry ''b.jsonl'' ([], []) (''U1_prototype_Task1'', ?supplied))
           (\<lambda>acc. merge_entry ''a.jsonl'' acc (''U1_prototype_Task1'', ?derived))
         = Inr (dict_set [] ''U1_prototype_Task1''
                  (dict_set (dict_set ?supplied ''file_source'' (JStr ''b.jsonl''))
                     ''state_transitions'' (JList [])), [])
     \<and> dict_get (dict_set (dict_set ?supplied ''state_transitions'' (JList []))
                   ''file_source'' (JStr ''b.jsonl''))
         = dict_get (dict_set (dict_set ?supplied ''file_source'' (JStr ''b.jsonl''))
                   ''state_transitions'' (JList []))
     \<and> dict_get (dict_set (dict_set ?supplied ''state_transitions'' (JList []))
                   ''file_source'' (JStr ''b.jsonl''))
         = (dict_get ?supplied)(''state_transitions'' \<mapsto> JList [],
                                ''file_source'' \<mapsto> JStr ''b.jsonl'')"
    by (rule complementary_merge_commutes [where dt = 90 and pt = "90.4" and dk = 30
          and pk = 30 and dtv = "JFloat 90" and ptv = "JFloat 90.4" and dkv = "JFloat 30"
          and pkv = "JInt 30"])
       (simp_all add: dict_get_def)
  then show ?thesis
    by (simp add: dict_set_def)
qed

section \<open>Two copies of one State-Transitions file\<close>

lemma py_eq_refl: "wf_json x \<Longrightarrow> py_eq x x"
proof (induction x)
  case (JList xs)
  then show ?case by (auto simp: list_all_iff intro!: list_all2_same [THEN iffD2] list.rel_refl_strong)
next
  case (JDict a)
  from JDict.prems have d: "distinct (map fst a)" and w: "\<forall>kv\<in>set a. wf_json (snd kv)"
    by (simp_all add: list_all_iff)
  have "case map_of a k of None \<Rightarrow> False | Some w \<Rightarrow> py_eq v w" if "(k, v) \<in> set a" for k v
  proof -
    from d that have "map_of a k = Some v" by simp
    moreover from that w have "wf_json v" by force
    with JDict.IH that have "py_eq v v" by force
    ultimately show ?thesis by simp
  qed
  then show ?case by (auto simp: list_all_iff)
qed simp_all

lemma set_dict_set: "set (dict_set d k v) \<subseteq> insert (k, v) (set d)"
  unfolding dict_set_def by (induction d) auto

lemma wf_dict_set:
  assumes "wf_json (JDict d)" and "wf_json v"
  shows "wf_json (JDict (dict_set d k v))"
proof -
  from assms(1) have "distinct (map fst (dict_set d k v))"
    by (simp add: dict_set_def distinct_update)
  moreover have "\<forall>kv\<in>set (dict_set d k v). wf_json (snd kv)"
    using set_dict_set [of d k v] assms by (fastforce simp: list_all_iff)
  ultimately show ?thesis by (simp add: list_all_iff)
qed

lemma wf_dict_get: "wf_json (JDict d) \<Longrightarrow> dict_get d k = Some v \<Longrightarrow> wf_json v"
  by (force simp: dict_get_def list_all_iff dest: map_of_SomeD)

lemma check_line_wf:
  assumes "check_line fi n l = Inr (j, k, t, s)" and "wf_json (JDict l)"
  shows "wf_json (JDict j)"
proof -
  from assms(1) obtain dt where j: "j = dict_set l ''utc_timestamp'' dt"
    and dt: "(case dict_get l ''utc_timestamp'' of None \<Rightarrow> Inl PyKeyError
              | Some v \<Rightarrow> iso_str_as_datetime fi v) = Inr dt"
    unfolding check_line_def by (auto simp: bind_err_eq_Inr Let_def)
  from dt obtain v where "iso_str_as_datetime fi v = Inr dt"
    by (auto split: option.splits)
  then have "wf_json dt"
    by (cases v) (auto split: option.splits)
  with assms(2) show ?thesis unfolding j by (rule wf_dict_set)
qed

lemma checked_lines_wf:
  "checked_lines fi n ls = Inr evs \<Longrightarrow> list_all (\<lambda>l. wf_json (JDict l)) ls \<Longrightarrow>
     \<forall>ev\<in>set evs. wf_json (JDict (fst ev))"
proof (induction ls arbitrary: n evs)
  case Nil
  then show ?case by simp
next
  case (Cons l ls)
  from Cons.prems(1) obtain e es where
    e: "check_line fi n l = Inr e" and
    es: "checked_lines fi (n + 1) ls = Inr es" and
    evs: "evs = e # es"
    by (auto simp: bind_err_eq_Inr)
  obtain j k t s where "e = (j, k, t, s)" by (cases e) auto
  with e Cons.prems(2) check_line_wf [of fi n l j k t s] have "wf_json (JDict (fst e))"
    by simp
  moreover from Cons.IH [OF es] Cons.prems(2) have "\<forall>ev\<in>set es. wf_json (JDict (fst ev))"
    by simp
  ultimately show ?case using evs by simp
qed

lemma reduce_line_wf:
  assumes inv: "loader_invariant st" and ev: "checked_event ev"
    and wf: "wf_json (JDict (fst ev))"
    and recs: "\<forall>kr\<in>set (snd st). wf_record (snd kr)"
    and step: "reduce_line n st ev = Inr st'"
  shows "\<forall>kr\<in>set (snd st'). wf_record (snd kr)"
proof -
  obtain sts rs where st: "st = (sts, rs)" by (cases st) auto
  obtain j k t s where e: "ev = (j, k, t, s)" by (cases ev) auto
  from ev e have sid: "dict_get j ''state_id'' = Some (JStr s)"
    and ident: "session_identifier j = Inr k"
    by (simp_all add: checked_event_def)
  from wf e have wfj: "wf_json (JDict j)" by simp
  from inv st have agree: "list_all2 session_tail_agrees sts rs"
    by (simp add: loader_invariant_def)
  have "\<exists>r. wf_record r \<and> snd st' = dict_set rs k r"
  proof (cases "dict_get sts k")
    case None
    from session_identifier_fields [OF ident] obtain a b c where
      abc: "dict_get j ''subject_id'' = Some a" "dict_get j ''condition'' = Some b"
           "dict_get j ''task_id'' = Some c"
      by blast
    let ?r = "\<lparr>subject_id = a, condition = b, task_id = c, task_start_time = t,
               task_total_time = 0, km_pull_total_time = 0, km_push_total_time = 0,
               state_transitions = [j]\<rparr>"
    from step reduce_line_new [OF None sid abc, of n rs t]
    have "snd st' = dict_set rs k ?r"
      unfolding st e by (auto split: if_splits)
    moreover have "wf_record ?r"
      using abc wfj wf_dict_get [OF wfj] by (simp add: wf_record_def)
    ultimately show ?thesis by blast
  next
    case (Some p)
    from agrees_lookup [OF agree Some] obtain r where r: "dict_get rs k = Some r" by blast
    from step reduce_line_known [OF Some r, of n j t s]
    have "snd st' = dict_set rs k (advance p r t j)"
      unfolding st e by (auto split: if_splits)
    moreover from r have "(k, r) \<in> set rs"
      by (simp add: dict_get_def map_of_SomeD)
    with recs st have "wf_record r" by force
    with wfj have "wf_record (advance p r t j)"
      by (simp add: wf_record_def advance_def)
    ultimately show ?thesis by blast
  qed
  then obtain r where "wf_record r" "snd st' = dict_set rs k r" by blast
  with recs st set_dict_set [of rs k r] show ?thesis by fastforce
qed

lemma reduce_lines_wf:
  assumes "loader_invariant st" and "\<forall>ev\<in>set evs. checked_event ev"
    and "\<forall>ev\<in>set evs. wf_json (JDict (fst ev))"
    and "\<forall>kr\<in>set (snd st). wf_record (snd kr)"
    and "reduce_lines n st evs = Inr st'"
  shows "\<forall>kr\<in>set (snd st'). wf_record (snd kr)"
  using assms
proof (induction evs arbitrary: n st)
  case Nil
  then show ?case by simp
next
  case (Cons ev evs)
  from Cons.prems(5) obtain st1 where
    one: "reduce_line n st ev = Inr st1" and
    more: "reduce_lines (n + 1) st1 evs = Inr st'"
    by (auto simp: bind_err_eq_Inr)
  from Cons.prems(2,3) have ev: "checked_event ev" "wf_json (JDict (fst ev))"
    and evs: "\<forall>ev\<in>set evs. checked_event ev" "\<forall>ev\<in>set evs. wf_json (JDict (fst ev))"
    by simp_all
  from reduce_line_invariant [OF Cons.prems(1) ev(1) one] have inv1: "loader_invariant st1"
    by simp
  from reduce_line_wf [OF Cons.prems(1) ev Cons.prems(4) one]
  have "\<forall>kr\<in>set (snd st1). wf_record (snd kr)" .
  from Cons.IH [OF inv1 evs this more] show ?case .
qed

lemma agrees_keys: "list_all2 session_tail_agrees sts recs \<Longrightarrow> map fst sts = map fst recs"
  by (induction sts recs rule: list_all2_induct) (auto simp: session_tail_agrees_def)

lemma loaded_records:
  assumes "load_state_transitions_records fi file_lines = Inr recs"
    and "list_all (\<lambda>l. wf_json (JDict l)) file_lines"
  shows "distinct (map fst recs) \<and> (\<forall>kr\<in>set recs. wf_record (snd kr))"
proof -
  from assms(1) obtain st where st: "read_lines fi 1 ([], []) file_lines = Inr st"
    and recs: "recs = snd st"
    unfolding load_state_transitions_records_def by (auto simp: bind_err_eq_Inr)
  from read_lines_Inr [OF st] obtain evs where
    checked: "checked_lines fi 1 file_lines = Inr evs" and
    run: "reduce_lines 1 ([], []) evs = Inr st"
    by blast
  from reduce_lines_invariant [OF empty_invariant checked_lines_all [OF checked] run]
  have inv: "loader_invariant st" by simp
  then have "distinct (map fst (snd st))"
    using agrees_keys [of "fst st" "snd st"] by (simp add: loader_invariant_def)
  moreover have "\<forall>kr\<in>set (snd st). wf_record (snd kr)"
    using reduce_lines_wf [OF empty_invariant checked_lines_all [OF checked]
        checked_lines_wf [OF checked assms(2)] _ run]
    by simp
  ultimately show ?thesis using recs by simp
qed

lemma dict_set_new: "dict_get d k = None \<Longrightarrow> dict_set d k v = d @ [(k, v)]"
  unfolding dict_get_def dict_set_def by (induction d) (auto split: if_splits)

lemma dict_get_append_other:
  "k' \<noteq> k \<Longrightarrow> dict_get (d @ [(k, v)]) k' = dict_get d k'"
  by (simp add: dict_get_def map_add_def split: option.split)

lemma merge_entries_fresh:
  assumes "distinct (map fst fc)"
    and "\<forall>kd\<in>set fc. dict_get jc (fst kd) = None"
    and "\<forall>kd\<in>set fc. dict_get (snd kd) ''file_source'' = None"
  shows "merge_entries n (jc, w) fc =
     Inr (jc @ map (\<lambda>kd. (fst kd, snd kd @ [(''file_source'', JStr n)])) fc, w)"
  using assms
proof (induction fc arbitrary: jc)
  case Nil
  then show ?case by simp
next
  case (Cons kd fc)
  obtain k d where kd: "kd = (k, d)" by (cases kd) auto
  from Cons.prems kd have fresh: "dict_get jc k = None" and src: "dict_get d ''file_source'' = None"
    by simp_all
  let ?jc = "jc @ [(k, d @ [(''file_source'', JStr n)])]"
  have step: "merge_entry n (jc, w) kd = Inr (?jc, w)"
    unfolding kd using merge_entry_new [OF fresh, of n w d]
    by (simp add: dict_set_new [OF fresh] dict_set_new [OF src])
  from Cons.prems(1) have d: "distinct (map fst fc)" by simp
  have f: "\<forall>kd\<in>set fc. dict_get ?jc (fst kd) = None"
  proof
    fix x assume x: "x \<in> set fc"
    with Cons.prems(1) kd have "fst x \<noteq> k" by force
    with Cons.prems(2) x show "dict_get ?jc (fst x) = None"
      by (simp add: dict_get_append_other)
  qed
  from Cons.prems(3) have s: "\<forall>kd\<in>set fc. dict_get (snd kd) ''file_source'' = None" by simp
  from Cons.IH [OF d f s] step kd show ?case by simp
qed

lemma wf_record_as_dict: "wf_record r \<Longrightarrow> wf_json (JDict (record_as_dict r))"
  by (simp add: wf_record_def record_as_dict_def list_all_iff)

lemma merge_entry_same:
  assumes look: "dict_get jc k = Some (record_as_dict r @ [(''file_source'', JStr n1)])"
    and wf: "wf_record r"
  shows "merge_entry n2 (jc, w) (k, record_as_dict r) = Inr (jc, w)"
proof -
  let ?rec = "record_as_dict r @ [(''file_source'', JStr n1)]"
  have g1: "dict_get ?rec ''task_total_time'' = Some (JFloat (task_total_time r))"
    and g2: "dict_get ?rec ''km_pull_total_time'' = Some (JFloat (km_pull_total_time r))"
    and g3: "dict_get ?rec ''file_source'' = Some (JStr n1)"
    and g4: "dict_get ?rec ''state_transitions'' = Some (JList (map JDict (state_transitions r)))"
    and h1: "dict_get (record_as_dict r) ''task_total_time'' = Some (JFloat (task_total_time r))"
    and h2: "dict_get (record_as_dict r) ''km_pull_total_time'' = Some (JFloat (km_pull_total_time r))"
    and h4: "dict_get (record_as_dict r) ''state_transitions''
               = Some (JList (map JDict (state_transitions r)))"
    by (simp_all add: dict_get_def record_as_dict_def)
  have del: "dict_del ?rec ''file_source'' = record_as_dict r"
    by (simp add: dict_del_def record_as_dict_def)
  have eq: "py_eq (JDict (record_as_dict r)) (JDict (record_as_dict r))"
    using wf by (intro py_eq_refl wf_record_as_dict)
  show ?thesis
    unfolding merge_entry_def
    by (simp add: look g1 g2 g3 g4 h1 h2 h4 del eq TIME_DIFFERENCE_THRESHOLD_def
        del: py_eq.simps(2))
qed

lemma merge_entries_same:
  assumes "\<forall>kd\<in>set fc. \<exists>r. snd kd = record_as_dict r \<and> wf_record r \<and>
             dict_get jc (fst kd) = Some (record_as_dict r @ [(''file_source'', JStr n1)])"
  shows "merge_entries n2 (jc, w) fc = Inr (jc, w)"
  using assms
proof (induction fc)
  case Nil
  then show ?case by simp
next
  case (Cons kd fc)
  from Cons.prems obtain r where r: "snd kd = record_as_dict r" "wf_record r"
    "dict_get jc (fst kd) = Some (record_as_dict r @ [(''file_source'', JStr n1)])"
    by auto
  have "merge_entry n2 (jc, w) kd = Inr (jc, w)"
    using merge_entry_same [OF r(3) r(2), of n2 w] r(1) by (cases kd) simp
  with Cons show ?case by simp
qed


lemma record_as_dict_no_source: "dict_get (record_as_dict r) ''file_source'' = None"
  by (simp add: dict_get_def record_as_dict_def)

lemma two_copies_contents:
  assumes recs: "load_state_transitions_records fi file_lines = Inr recs"
    and wf: "list_all (\<lambda>l. wf_json (JDict l)) file_lines"
  shows "merge_entries n1 ([], []) (map (\<lambda>(ident, r). (ident, record_as_dict r)) recs)
       = Inr (map (\<lambda>kd. (fst kd, snd kd @ [(''file_source'', JStr n1)]))
                (map (\<lambda>(ident, r). (ident, record_as_dict r)) recs), [])
     \<and> merge_entries n2
          (map (\<lambda>kd. (fst kd, snd kd @ [(''file_source'', JStr n1)]))
             (map (\<lambda>(ident, r). (ident, record_as_dict r)) recs), [])
          (map (\<lambda>(ident, r). (ident, record_as_dict r)) recs)
       = Inr (map (\<lambda>kd. (fst kd, snd kd @ [(''file_source'', JStr n1)]))
                (map (\<lambda>(ident, r). (ident, record_as_dict r)) recs), [])"
proof -
  let ?fc = "map (\<lambda>(ident, r). (ident, record_as_dict r)) recs"
  let ?jc = "map (\<lambda>kd. (fst kd, snd kd @ [(''file_source'', JStr n1)])) ?fc"
  from loaded_records [OF recs wf] have dist: "distinct (map fst recs)"
    and wfr: "\<forall>kr\<in>set recs. wf_record (snd kr)"
    by simp_all
  have keys: "map fst ?fc = map fst recs" "map fst ?jc = map fst recs"
    by (simp_all add: comp_def case_prod_beta)
  have d: "distinct (map fst ?fc)" unfolding keys(1) by (rule dist)
  have dj: "distinct (map fst ?jc)" unfolding keys(2) by (rule dist)
  have f: "\<forall>kd\<in>set ?fc. dict_get ([] :: (string \<times> pydict) list) (fst kd) = None"
    by (simp add: dict_get_def)
  have s: "\<forall>kd\<in>set ?fc. dict_get (snd kd) ''file_source'' = None"
    by (auto simp: record_as_dict_no_source)
  from merge_entries_fresh [OF d f s, of n1 "[]"]
  have one: "merge_entries n1 ([], []) ?fc = Inr (?jc, [])" by simp
  have "\<exists>r. snd kd = record_as_dict r \<and> wf_record r \<and>
          dict_get ?jc (fst kd) = Some (record_as_dict r @ [(''file_source'', JStr n1)])"
    if kd: "kd \<in> set ?fc" for kd
  proof -
    from kd obtain k r where kr: "(k, r) \<in> set recs" and kd': "kd = (k, record_as_dict r)"
      by auto
    from kr wfr have "wf_record r" by force
    moreover from kr have mem: "(k, record_as_dict r @ [(''file_source'', JStr n1)]) \<in> set ?jc"
      by force
    have "dict_get ?jc k = Some (record_as_dict r @ [(''file_source'', JStr n1)])"
      unfolding dict_get_def by (rule map_of_is_SomeI [OF dj mem])
    ultimately show ?thesis using kd' by auto
  qed
  then have "\<forall>kd\<in>set ?fc. \<exists>r. snd kd = record_as_dict r \<and> wf_record r \<and>
          dict_get ?jc (fst kd) = Some (record_as_dict r @ [(''file_source'', JStr n1)])"
    by blast
  from merge_entries_same [OF this, of n2 "[]"]
  have "merge_entries n2 (?jc, []) ?fc = Inr (?jc, [])" .
  with one show ?thesis by simp
qed

text \<open>
  Claim C7. Two files of a directory with the same lines, read as State-Transitions
  files (the first line lacks a Subject-Task field and has the State-Transition fields):
  loading both gives exactly what loading the first alone gives, error or result. That
  result is the content of the file with the name of the first copy as
  \<^verbatim>\<open>file_source\<close> of every record, and no warning printed: the second copy raises no
  conflict and changes nothing.
\<close>

theorem two_copies_as_one:
  assumes ext: "splitext_ext name1 = ''.jsonl''" "splitext_ext name2 = ''.jsonl''"
    and lines: "file_lines = first_line_json # rest"
    and not_subject_task: "verify_all_subject_task_fields_present first_line_json = Inl err1"
    and transitions: "verify_all_state_transition_fields_present first_line_json = Inr ()"
    and wf: "list_all (\<lambda>l. wf_json (JDict l)) file_lines"
  shows "load_directory fi listing float_of int_of
           [\<lparr>entry_name = name1, entry_lines = file_lines, entry_rows = rows1\<rparr>,
            \<lparr>entry_name = name2, entry_lines = file_lines, entry_rows = rows2\<rparr>]
         = load_directory fi listing float_of int_of
           [\<lparr>entry_name = name1, entry_lines = file_lines, entry_rows = rows1\<rparr>]
     \<and> load_directory fi listing float_of int_of
           [\<lparr>entry_name = name1, entry_lines = file_lines, entry_rows = rows1\<rparr>]
         = bind_err (load_state_transitions_file fi file_lines) (\<lambda>file_contents.
             Inr \<lparr>jsonl_contents =
                    map (\<lambda>kd. (fst kd, snd kd @ [(''file_source'', JStr name1)])) file_contents,
                  csv_metadata = [], printed = []\<rparr>)"
proof -
  have shape: "load_jsonl_file fi file_lines = load_state_transitions_file fi file_lines"
    unfolding load_jsonl_file_def lines using not_subject_task transitions by simp
  show ?thesis
  proof (cases "load_state_transitions_records fi file_lines")
    case (Inl e)
    then have "load_state_transitions_file fi file_lines = Inl e"
      by (simp add: load_state_transitions_file_def)
    then show ?thesis
      using ext shape by (simp add: load_directory_def)
  next
    case (Inr recs)
    let ?fc = "map (\<lambda>(ident, r). (ident, record_as_dict r)) recs"
    let ?jc = "map (\<lambda>kd. (fst kd, snd kd @ [(''file_source'', JStr name1)])) ?fc"
    from Inr have fc: "load_state_transitions_file fi file_lines = Inr ?fc"
      by (simp add: load_state_transitions_file_def)
    note merges = two_copies_contents [OF Inr wf, of name1 name2]
    show ?thesis
      using ext shape fc merges by (simp add: load_directory_def)
  qed
qed

theorem two_copies_as_one_witness:
  "load_directory sample_clock rev sample_float sample_int
     [jsonl_entry ''a.jsonl'' scenario_A, jsonl_entry ''b.jsonl'' scenario_A]
   = load_directory sample_clock rev sample_float sample_int [jsonl_entry ''a.jsonl'' scenario_A]
   \<and> \<not> isl (load_directory sample_clock rev sample_float sample_int
               [jsonl_entry ''a.jsonl'' scenario_A])"
proof -
  have ext: "splitext_ext ''a.jsonl'' = ''.jsonl''" "splitext_ext ''b.jsonl'' = ''.jsonl''"
    by code_simp+
  have lines: "scenario_A = sample_event ''1970-01-01T00:00:00'' ''task_initialized'' #
      [sample_event ''1970-01-01T00:00:00'' ''km_pull_activity'',
       sample_event ''1970-01-01T00:00:30'' ''task_execution'',
       sample_event ''1970-01-01T00:01:30'' ''task_conclusion'']"
    by (simp add: scenario_A_def)
  have a: "verify_all_subject_task_fields_present
      (sample_event ''1970-01-01T00:00:00'' ''task_initialized'')
      = Inl (AttributeNotFound ''task_start_time'')"
    by code_simp
  have b: "verify_all_state_transition_fields_present
      (sample_event ''1970-01-01T00:00:00'' ''task_initialized'') = Inr ()"
    by code_simp
  have wf: "list_all (\<lambda>l. wf_json (JDict l)) scenario_A"
    by code_simp
  from two_copies_as_one [OF ext lines a b wf, of sample_clock rev sample_float sample_int "[]" "[]"]
  have "load_directory sample_clock rev sample_float sample_int
     [jsonl_entry ''a.jsonl'' scenario_A, jsonl_entry ''b.jsonl'' scenario_A]
   = load_directory sample_clock rev sample_float sample_int [jsonl_entry ''a.jsonl'' scenario_A]"
    by (simp add: jsonl_entry_def)
  moreover have "\<not> isl (load_directory sample_clock rev sample_float sample_int
               [jsonl_entry ''a.jsonl'' scenario_A])"
    by code_simp
  ultimately show ?thesis by simp
qed

section \<open>The activity totals of an accepted file\<close>

text \<open>The pull and push totals only receive deltas that follow an event other than
  \<^verbatim>\<open>task_initialized\<close>, for which the ordering check requires a later timestamp: in
  every record of an accepted file they are non-negative.\<close>

lemma reduce_line_activity:
  assumes inv: "loader_invariant st" and ev: "checked_event ev"
    and recs: "\<forall>kr\<in>set (snd st). 0 \<le> km_pull_total_time (snd kr) \<and> 0 \<le> km_push_total_time (snd kr)"
    and step: "reduce_line n st ev = Inr st'"
  shows "\<forall>kr\<in>set (snd st'). 0 \<le> km_pull_total_time (snd kr) \<and> 0 \<le> km_push_total_time (snd kr)"
proof -
  obtain sts rs where st: "st = (sts, rs)" by (cases st) auto
  obtain j k t s where e: "ev = (j, k, t, s)" by (cases ev) auto
  from ev e have sid: "dict_get j ''state_id'' = Some (JStr s)"
    and ident: "session_identifier j = Inr k"
    by (simp_all add: checked_event_def)
  from inv st have agree: "list_all2 session_tail_agrees sts rs"
    by (simp add: loader_invariant_def)
  have "\<exists>r. 0 \<le> km_pull_total_time r \<and> 0 \<le> km_push_total_time r \<and> snd st' = dict_set rs k r"
  proof (cases "dict_get sts k")
    case None
    from session_identifier_fields [OF ident] obtain a b c where
      abc: "dict_get j ''subject_id'' = Some a" "dict_get j ''condition'' = Some b"
           "dict_get j ''task_id'' = Some c"
      by blast
    let ?r = "\<lparr>subject_id = a, condition = b, task_id = c, task_start_time = t,
               task_total_time = 0, km_pull_total_time = 0, km_push_total_time = 0,
               state_transitions = [j]\<rparr>"
    from step reduce_line_new [OF None sid abc, of n rs t]
    have "snd st' = dict_set rs k ?r"
      unfolding st e by (auto split: if_splits)
    moreover have "0 \<le> km_pull_total_time ?r \<and> 0 \<le> km_push_total_time ?r"
      by simp
    ultimately show ?thesis by blast
  next
    case (Some p)
    from agrees_lookup [OF agree Some] obtain r where r: "dict_get rs k = Some r" by blast
    from step reduce_line_known [OF Some r, of n j t s]
    have st': "snd st' = dict_set rs k (advance p r t j)"
      and later: "prev_utc_timestamp p < t \<or> prev_state_id p = ''task_initialized''"
      unfolding st e by (auto split: if_splits)
    from r have "(k, r) \<in> set rs"
      by (simp add: dict_get_def map_of_SomeD)
    with recs st have "0 \<le> km_pull_total_time r" "0 \<le> km_push_total_time r" by force+
    with later have "0 \<le> km_pull_total_time (advance p r t j)"
      "0 \<le> km_push_total_time (advance p r t j)"
      by (auto simp: advance_def total_seconds_def)
    with st' show ?thesis by blast
  qed
  then obtain r where "0 \<le> km_pull_total_time r" "0 \<le> km_push_total_time r"
    "snd st' = dict_set rs k r" by blast
  with recs st set_dict_set [of rs k r] show ?thesis by fastforce
qed

lemma reduce_lines_activity:
  assumes "loader_invariant st" and "\<forall>ev\<in>set evs. checked_event ev"
    and "\<forall>kr\<in>set (snd st). 0 \<le> km_pull_total_time (snd kr) \<and> 0 \<le> km_push_total_time (snd kr)"
    and "reduce_lines n st evs = Inr st'"
  shows "\<forall>kr\<in>set (snd st'). 0 \<le> km_pull_total_time (snd kr) \<and> 0 \<le> km_push_total_time (snd kr)"
  using assms
proof (induction evs arbitrary: n st)
  case Nil
  then show ?case by simp
next
  case (Cons ev evs)
  from Cons.prems(4) obtain st1 where
    one: "reduce_line n st ev = Inr st1" and
    more: "reduce_lines (n + 1) st1 evs = Inr st'"
    by (auto simp: bind_err_eq_Inr)
  from Cons.prems(2) have ev: "checked_event ev" and evs: "\<forall>ev\<in>set evs. checked_event ev"
    by simp_all
  from reduce_line_invariant [OF Cons.prems(1) ev one] have inv1: "loader_invariant st1"
    by simp
  from reduce_line_activity [OF Cons.prems(1) ev Cons.prems(3) one]
  have "\<forall>kr\<in>set (snd st1). 0 \<le> km_pull_total_time (snd kr) \<and> 0 \<le> km_push_total_time (snd kr)" .
  from Cons.IH [OF inv1 evs this more] show ?case .
qed

lemma activity_totals_nonnegative:
  assumes "load_state_transitions_records fi file_lines = Inr recs" and "(k, r) \<in> set recs"
  shows "0 \<le> km_pull_total_time r \<and> 0 \<le> km_push_total_time r"
proof -
  from assms(1) obtain st where st: "read_lines fi 1 ([], []) file_lines = Inr st"
    and recs: "recs = snd st"
    unfolding load_state_transitions_records_def by (auto simp: bind_err_eq_Inr)
  from read_lines_Inr [OF st] obtain evs where
    checked: "checked_lines fi 1 file_lines = Inr evs" and
    run: "reduce_lines 1 ([], []) evs = Inr st"
    by blast
  from reduce_lines_activity [OF empty_invariant checked_lines_all [OF checked] _ run]
  have "\<forall>kr\<in>set (snd st). 0 \<le> km_pull_total_time (snd kr) \<and> 0 \<le> km_push_total_time (snd kr)"
    by simp
  with assms(2) recs show ?thesis by force
qed

end
